theory Spec2Isabelle
  imports Complex_Main
begin

section \<open>The SERP client: one probe (\<open>src/src/utils/serp_handler.py\<close>)\<close>

text \<open>
  The client is configured from two dictionaries, \<open>serp\<close> and \<open>performance\<close>.
  The repository's configurations give \<open>retry_attempts\<close> and \<open>retry_delay\<close> as Python
  integers and \<open>rate_limit\<close> as a float; the float is read as a real number.
\<close>

record serp_config =
  api_provider :: string
  concurrent_requests :: nat
  rate_limit :: real
  timeout :: int
  retry_attempts :: int
  retry_delay :: int

text \<open>
  The dataclass \<open>SERPResult\<close>. Its \<open>error\<close> field is a formatted message in the source;
  the two messages the client builds are kept apart by a constructor each:
  \<open>Request_failed n\<close> is the message "request failed, retried n times" and
  \<open>Parse_error e\<close> is "parse error: e".
\<close>

datatype serp_error = Request_failed int | Parse_error string

record SERPResult =
  keyword :: string
  has_aio :: bool
  aio_content :: "string option"
  total_results :: int
  error :: "serp_error option"

text \<open>
  What one HTTP attempt can bring back. The body of a 200 response is represented by what
  \<open>_parse_serp_response\<close> makes of it: that method runs wholly inside
  \<open>try ... except Exception\<close>, so it either returns the detected fields or the error result.
  \<open>Status_200 None\<close> is a 200 response whose \<open>response.json()\<close> raises.
  The \<open>Retry-After\<close> header of a 429 response is absent, or a text that \<open>int\<close> accepts,
  or a text on which \<open>int\<close> raises \<open>ValueError\<close>.
\<close>

datatype parse_outcome = Parsed bool "string option" int | Parse_raises string

datatype retry_after = No_header | Header_int int | Header_not_int

datatype http_outcome =
    Status_200 "parse_outcome option"
  | Status_429 retry_after
  | Status_other nat
  | Timeout_error
  | Other_exception

datatype http_method = Post | Get

record attempt_log =
  attempt_no :: nat
  http_verb :: http_method
  slept :: "int list"

definition parse_serp_response :: "string \<Rightarrow> parse_outcome \<Rightarrow> SERPResult" where
  "parse_serp_response kw po =
     (case po of
        Parsed h c t \<Rightarrow>
          \<lparr>keyword = kw, has_aio = h, aio_content = c, total_results = t, error = None\<rparr>
      | Parse_raises e \<Rightarrow>
          \<lparr>keyword = kw, has_aio = False, aio_content = None, total_results = 0,
           error = Some (Parse_error e)\<rparr>)"

text \<open>
  The body of the \<open>try\<close> block of one attempt: \<open>Inl\<close> is the \<open>return\<close> out of the loop,
  \<open>Inr\<close> lists the arguments of the \<open>asyncio.sleep\<close> calls made inside the block before
  control reaches the back-off statement (also when an exception was caught).
\<close>

fun attempt_body :: "serp_config \<Rightarrow> string \<Rightarrow> http_outcome \<Rightarrow> SERPResult + int list" where
  "attempt_body cfg kw (Status_200 (Some po)) = Inl (parse_serp_response kw po)"
| "attempt_body cfg kw (Status_200 None) = Inr []"
| "attempt_body cfg kw (Status_429 No_header) = Inr [retry_delay cfg]"
| "attempt_body cfg kw (Status_429 (Header_int h)) = Inr [h]"
| "attempt_body cfg kw (Status_429 Header_not_int) = Inr []"
| "attempt_body cfg kw (Status_other c) = Inr []"
| "attempt_body cfg kw Timeout_error = Inr []"
| "attempt_body cfg kw Other_exception = Inr []"

text \<open>\<open>if attempt < self.retry_attempts - 1: await asyncio.sleep(self.retry_delay * (attempt + 1))\<close>\<close>

definition backoff :: "serp_config \<Rightarrow> nat \<Rightarrow> int list" where
  "backoff cfg attempt =
     (if int attempt < retry_attempts cfg - 1 then [retry_delay cfg * (int attempt + 1)] else [])"

definition verb :: "serp_config \<Rightarrow> http_method" where
  "verb cfg = (if api_provider cfg = ''serper'' then Post else Get)"

text \<open>
  \<open>for attempt in range(self.retry_attempts)\<close>, over the list of attempt numbers still to
  run. The two provider branches of the source run the same loop and differ in the HTTP
  verb only. The function \<open>net\<close> gives the outcome of each attempt of this probe.
\<close>

fun request_loop ::
  "serp_config \<Rightarrow> (nat \<Rightarrow> http_outcome) \<Rightarrow> string \<Rightarrow> nat list \<Rightarrow> SERPResult option \<times> attempt_log list"
where
  "request_loop cfg net kw [] = (None, [])"
| "request_loop cfg net kw (attempt # rest) =
     (case attempt_body cfg kw (net attempt) of
        Inl r \<Rightarrow> (Some r, [\<lparr>attempt_no = attempt, http_verb = verb cfg, slept = []\<rparr>])
      | Inr zs \<Rightarrow>
          (case request_loop cfg net kw rest of
             (r, lg) \<Rightarrow>
               (r, \<lparr>attempt_no = attempt, http_verb = verb cfg,
                     slept = zs @ backoff cfg attempt\<rparr> # lg)))"

definition failed_result :: "serp_config \<Rightarrow> string \<Rightarrow> SERPResult" where
  "failed_result cfg kw =
     \<lparr>keyword = kw, has_aio = False, aio_content = None, total_results = 0,
      error = Some (Request_failed (retry_attempts cfg))\<rparr>"

text \<open>
  \<open>_make_serp_request\<close>, as far as its result and its requests go; the admission gate and
  the pacing delay that precede the loop decide when the probe runs, not what it returns,
  and are modelled in the scheduling section below.
\<close>

definition make_serp_request ::
  "serp_config \<Rightarrow> (nat \<Rightarrow> http_outcome) \<Rightarrow> string \<Rightarrow> SERPResult \<times> attempt_log list"
where
  "make_serp_request cfg net kw =
     (case request_loop cfg net kw [0..<nat (retry_attempts cfg)] of
        (Some r, lg) \<Rightarrow> (r, lg)
      | (None, lg) \<Rightarrow> (failed_result cfg kw, lg))"

section \<open>The batch (\<open>batch_validate_aio\<close>)\<close>

text \<open>
  \<open>process_keyword\<close> awaits the probe and returns the pair \<open>(keyword, result.has_aio)\<close>;
  its two counters feed the progress log only. \<open>asyncio.gather(..., return_exceptions=True)\<close>
  returns one entry per task, in the order of the input list: an exception object
  (\<open>Inl\<close>) or the task's value (\<open>Inr\<close>). Task \<open>i\<close> is the one made for position \<open>i\<close> of
  the list, and \<open>net i\<close> gives the outcomes of its attempts.
\<close>

type_synonym task_result = "string + (string \<times> bool)"

definition process_keyword ::
  "serp_config \<Rightarrow> (nat \<Rightarrow> http_outcome) \<Rightarrow> string \<Rightarrow> task_result \<times> (string \<times> attempt_log list)"
where
  "process_keyword cfg net kw =
     (case make_serp_request cfg net kw of
        (result, lg) \<Rightarrow> (Inr (kw, has_aio result), (kw, lg)))"

fun gather ::
  "serp_config \<Rightarrow> (nat \<Rightarrow> nat \<Rightarrow> http_outcome) \<Rightarrow> nat \<Rightarrow> string list
     \<Rightarrow> (task_result \<times> (string \<times> attempt_log list)) list"
where
  "gather cfg net i [] = []"
| "gather cfg net i (kw # kws) = process_keyword cfg (net i) kw # gather cfg net (Suc i) kws"

text \<open>The loop over \<open>completed_tasks\<close>: an exception is logged, a value is stored.\<close>

fun collect_results :: "(string \<rightharpoonup> bool) \<Rightarrow> task_result list \<Rightarrow> (string \<rightharpoonup> bool)" where
  "collect_results results [] = results"
| "collect_results results (Inl e # rest) = collect_results results rest"
| "collect_results results (Inr (kw, h) # rest) = collect_results (results(kw \<mapsto> h)) rest"

text \<open>
  The batch returns the dictionary; the second component is the record of the probes that
  were run (keyword and attempts of each), which the source does not return.
\<close>

definition batch_validate_aio ::
  "serp_config \<Rightarrow> (nat \<Rightarrow> nat \<Rightarrow> http_outcome) \<Rightarrow> string list
     \<Rightarrow> (string \<rightharpoonup> bool) \<times> (string \<times> attempt_log list) list"
where
  "batch_validate_aio cfg net keywords =
     (if keywords = [] then (Map.empty, [])
      else (case gather cfg net 0 keywords of
              completed_tasks \<Rightarrow>
                (collect_results Map.empty (map fst completed_tasks), map snd completed_tasks)))"

text \<open>An attempt succeeds when it brings a 200 response whose body can be read.\<close>

fun is_success :: "http_outcome \<Rightarrow> bool" where
  "is_success (Status_200 (Some po)) = True"
| "is_success other = False"

section \<open>Admission and pacing (\<open>_make_serp_request\<close>, \<open>_rate_limit_delay\<close>)\<close>

text \<open>
  The tasks of a batch are coroutines of one event loop: a task runs until it awaits
  something that is not ready, and then another task runs. A probe can be suspended at
  three kinds of places: at the semaphore (\<open>async with self._semaphore\<close>, which suspends
  the task while the counter is 0), in the sleep inside \<open>_rate_limit_delay\<close>, and in its
  loop of requests. Between two such places the task is alone. Python's floats are read as
  real numbers, and a sleep ends no earlier than asked.

  A worker is the task of one keyword. It is \<open>Waiting\<close> for the semaphore, or \<open>Sleeping\<close>
  in the pacing delay until the time given, or \<open>In_flight\<close> (it has left the pacing delay:
  the loop of requests runs), or \<open>Done\<close> (it has left the \<open>async with\<close> block).
\<close>

datatype phase = Waiting | Sleeping real | In_flight | Done

text \<open>
  The shared state: the clock (\<open>time.time()\<close>), \<open>self._last_request_time\<close>, the counter of
  the semaphore, the phase of each worker, and the record of the probe starts (worker and
  time, in order).
\<close>

record sched =
  now :: real
  last_request_time :: real
  sem_value :: nat
  phases :: "phase list"
  starts :: "(nat \<times> real) list"

text \<open>
  \<open>SERPHandler.__init__\<close> sets the semaphore to \<open>concurrent_requests\<close> and the last request
  time to 0; the batch makes one task per keyword.
\<close>

definition init_sched :: "serp_config \<Rightarrow> nat \<Rightarrow> real \<Rightarrow> sched" where
  "init_sched cfg n t0 =
     \<lparr>now = t0, last_request_time = 0, sem_value = concurrent_requests cfg,
      phases = replicate n Waiting, starts = []\<rparr>"

text \<open>The worker leaves \<open>_rate_limit_delay\<close> and its loop of requests begins.\<close>

definition start_probe :: "nat \<Rightarrow> sched \<Rightarrow> sched" where
  "start_probe i s =
     s\<lparr>phases := (phases s)[i := In_flight], starts := starts s @ [(i, now s)]\<rparr>"

text \<open>
  \<open>_rate_limit_delay\<close> up to its first suspension. With a positive rate limit the worker
  reads the clock and the last request time; when the interval has not passed it goes to
  sleep for the rest of it, and the last request time stays as it was; otherwise it
  writes the clock into the last request time and leaves.
\<close>

definition rate_limit_delay :: "serp_config \<Rightarrow> nat \<Rightarrow> sched \<Rightarrow> sched" where
  "rate_limit_delay cfg i s =
     (if rate_limit cfg > 0
      then (let current_time = now s;
                time_since_last = current_time - last_request_time s;
                min_interval = 1 / rate_limit cfg
            in if time_since_last < min_interval
               then (let sleep_time = min_interval - time_since_last
                     in s\<lparr>phases := (phases s)[i := Sleeping (current_time + sleep_time)]\<rparr>)
               else start_probe i (s\<lparr>last_request_time := now s\<rparr>))
      else start_probe i s)"

text \<open>
  \<open>_rate_limit_delay\<close> after the sleep: \<open>self._last_request_time = time.time()\<close>.
\<close>

definition wake_up :: "nat \<Rightarrow> sched \<Rightarrow> sched" where
  "wake_up i s = start_probe i (s\<lparr>last_request_time := now s\<rparr>)"

text \<open>
  What can happen next: time passes, or a worker runs from where it is to its next
  suspension. A waiting worker can run when the semaphore has a free slot, a sleeping one
  when its time has come, and a worker in flight ends its requests at any time and
  releases its slot. \<open>None\<close> means that the event cannot happen in this state.
\<close>

datatype event = Tick real | Run nat

fun step :: "serp_config \<Rightarrow> sched \<Rightarrow> event \<Rightarrow> sched option" where
  "step cfg s (Tick d) = (if 0 \<le> d then Some (s\<lparr>now := now s + d\<rparr>) else None)"
| "step cfg s (Run i) =
     (if length (phases s) \<le> i then None
      else case phases s ! i of
             Waiting \<Rightarrow>
               if sem_value s = 0 then None
               else Some (rate_limit_delay cfg i (s\<lparr>sem_value := sem_value s - 1\<rparr>))
           | Sleeping t \<Rightarrow> if now s < t then None else Some (wake_up i s)
           | In_flight \<Rightarrow>
               Some (s\<lparr>phases := (phases s)[i := Done], sem_value := sem_value s + 1\<rparr>)
           | Done \<Rightarrow> None)"

fun run :: "serp_config \<Rightarrow> sched \<Rightarrow> event list \<Rightarrow> sched option" where
  "run cfg s [] = Some s"
| "run cfg s (e # es) = (case step cfg s e of None \<Rightarrow> None | Some s' \<Rightarrow> run cfg s' es)"

text \<open>A worker holds a slot of the semaphore from its admission to its end.\<close>

fun holds_slot :: "phase \<Rightarrow> bool" where
  "holds_slot Waiting = False"
| "holds_slot (Sleeping t) = True"
| "holds_slot In_flight = True"
| "holds_slot Done = False"

definition slots_held :: "sched \<Rightarrow> nat" where
  "slots_held s = length (filter holds_slot (phases s))"

definition probes_in_flight :: "sched \<Rightarrow> nat" where
  "probes_in_flight s = length (filter (\<lambda>p. p = In_flight) (phases s))"

text \<open>The gaps between consecutive probe starts.\<close>

fun gaps :: "real list \<Rightarrow> real list" where
  "gaps (a # b # ts) = (b - a) # gaps (b # ts)"
| "gaps ts = []"

text \<open>The invariant of the semaphore: the slots held and the free slots make up the bound.\<close>

definition slots_inv :: "serp_config \<Rightarrow> sched \<Rightarrow> bool" where
  "slots_inv cfg s = (slots_held s + sem_value s = concurrent_requests cfg)"

section \<open>Python's numbers\<close>

text \<open>
  A Python \<open>float\<close> is an IEEE 754 binary64 number. A finite one is represented by its exact
  value, a rational number (the sign of a zero is not kept); the two infinities are
  values of their own. Every operation rounds its exact result to the nearest
  representable number, ties to the even significand.

  \<open>bit_length\<close> is \<open>int.bit_length\<close>, \<open>pow2 e\<close> is \<open>2\<close> to the power \<open>e\<close>, and \<open>binade x\<close>, for a
  positive \<open>x\<close>, is the exponent \<open>k\<close> with \<open>2 ^ k \<le> x < 2 ^ (k + 1)\<close>.
\<close>

datatype py_error = ZeroDivisionError | OverflowError

datatype py_float = Finite rat | Pos_inf | Neg_inf

datatype py_number = Py_int int | Py_float py_float

definition error_text :: "py_error \<Rightarrow> string" where
  "error_text exc =
     (case exc of
        ZeroDivisionError \<Rightarrow> ''division by zero''
      | OverflowError \<Rightarrow> ''integer division result too large for a float'')"

fun bit_length :: "nat \<Rightarrow> nat" where
  "bit_length n = (if n = 0 then 0 else Suc (bit_length (n div 2)))"

declare bit_length.simps [simp del]

definition pow2 :: "int \<Rightarrow> rat" where
  "pow2 e = (if 0 \<le> e then 2 ^ nat e else 1 / 2 ^ nat (- e))"

definition binade :: "rat \<Rightarrow> int" where
  "binade x =
     (if 1 \<le> x then int (bit_length (nat \<lfloor>x\<rfloor>)) - 1
      else - int (bit_length (nat (\<lceil>1 / x\<rceil> - 1))))"

definition round_half_even :: "rat \<Rightarrow> int" where
  "round_half_even x =
     (let f = \<lfloor>x\<rfloor>; d = x - of_int f
      in if d < 1 / 2 then f else if 1 / 2 < d then f + 1 else if even f then f else f + 1)"

text \<open>
  The number with a significand of 53 bits (fewer below \<open>2 ^ - 1022\<close>, where the spacing
  stays \<open>2 ^ - 1074\<close>) that is nearest to \<open>x\<close>; it is a binary64 number unless it has reached
  \<open>2 ^ 1024\<close>, where the operation overflows.
\<close>

definition to_double :: "rat \<Rightarrow> rat" where
  "to_double x =
     (if x = 0 then 0
      else (let e = max (binade \<bar>x\<bar> - 52) (- 1074)
            in of_int (round_half_even (x / pow2 e)) * pow2 e))"

definition round_float :: "rat \<Rightarrow> py_float" where
  "round_float x =
     (let y = to_double x
      in if 2 ^ 1024 \<le> y then Pos_inf else if y \<le> - (2 ^ 1024) then Neg_inf else Finite y)"

text \<open>
  \<open>a / b\<close> on two \<open>int\<close>s: the quotient is rounded once; a zero divisor and a quotient beyond
  the floats raise.
\<close>

definition int_truediv :: "int \<Rightarrow> int \<Rightarrow> py_error + py_float" where
  "int_truediv a b =
     (if b = 0 then Inl ZeroDivisionError
      else case round_float (of_int a / of_int b) of
             Finite q \<Rightarrow> Inr (Finite q)
           | Pos_inf \<Rightarrow> Inl OverflowError
           | Neg_inf \<Rightarrow> Inl OverflowError)"

text \<open>\<open>x * 100\<close> on a \<open>float\<close>: the literal becomes the float \<open>100.0\<close>, which is exact.\<close>

definition times_100 :: "py_float \<Rightarrow> py_float" where
  "times_100 x =
     (case x of Finite q \<Rightarrow> round_float (q * 100) | Pos_inf \<Rightarrow> Pos_inf | Neg_inf \<Rightarrow> Neg_inf)"


section \<open>The stored data (\<open>src/backend/aio_analyzer/apps/analysis/models.py\<close>)\<close>

text \<open>
  The Django models, with the fields the pipeline reads or writes. Identifiers, names,
  dates and time stamps are left out; a text shown to the user (the label of the current
  step, the current operation of a task) is left out or replaced by a constructor.
  An exception is its message; the messages the source writes in Chinese are given in
  English.
\<close>

type_synonym exn = string

datatype project_status = Created | Running | Completed | Failed | Cancelled

datatype task_status = Pending | Task_running | Task_completed | Task_failed | Task_cancelled

datatype task_type = Gsc_extraction | Keyword_expansion | Aio_validation | Report_generation

datatype source_type = Gsc | Ads_expansion | Manual

record AnalysisProject =
  status :: project_status
  total_steps :: int
  completed_steps :: int
  current_step :: "task_type option"
  total_keywords :: int
  aio_keywords :: int
  completion_percentage :: real
  error_message :: string

text \<open>The field defaults of a project that has just been created.\<close>

definition new_project :: AnalysisProject where
  "new_project =
     \<lparr>status = Created, total_steps = 4, completed_steps = 0, current_step = None,
      total_keywords = 0, aio_keywords = 0, completion_percentage = 0, error_message = []\<rparr>"

text \<open>
  The \<open>result_data\<close> dictionary of a task: empty by default, a message alone when the stage
  found nothing to do, or the counts of the stage (the statistics sub-dictionaries, which
  are sums and means of the fetched columns, are left out).
\<close>

datatype result_data =
    No_result
  | Message_only
  | Gsc_result int int
  | Ads_result int int
  | Validation_result int int py_number int

record AnalysisTask =
  task_type :: task_type
  task_status :: task_status
  progress_percentage :: real
  result_data :: result_data
  result_count :: int
  task_error_message :: string

definition new_task :: "task_type \<Rightarrow> AnalysisTask" where
  "new_task ty =
     \<lparr>task_type = ty, task_status = Pending, progress_percentage = 0, result_data = No_result,
      result_count = 0, task_error_message = []\<rparr>"

record KeywordData =
  kd_keyword :: string
  source_type :: source_type
  gsc_clicks :: "int option"
  gsc_impressions :: "int option"
  gsc_ctr :: "real option"
  gsc_position :: "real option"
  ads_search_volume :: "int option"
  ads_competition_level :: string
  ads_competition_index :: "real option"
  ads_low_bid :: "real option"
  ads_high_bid :: "real option"
  aio_verified :: "bool option"
  aio_triggers :: "bool option"

text \<open>The rows the two data sources hand over (the columns of their data frames).\<close>

record gsc_row =
  query :: string
  clicks :: int
  impressions :: int
  ctr :: real
  position :: real

record ads_row =
  keyword_idea :: string
  search_volume :: int
  competition_level :: string
  competition_index :: real
  low_top_of_page_bid_usd :: real
  high_top_of_page_bid_usd :: real

text \<open>
  The database, for one project: its row, the task rows (a task's identifier is its
  position) and the keyword rows in insertion order; \<open>unique_together\<close> keeps one row per
  keyword. Two records of what happened are kept beside the tables: every value written
  to the project row by a \<open>project.save()\<close>, oldest first, and the stage functions that were
  started, in order.

  A model instance in Python is a copy of its row: \<open>objects.get\<close> reads the row into a new
  object and \<open>save()\<close> writes every field of the object back. Each function below therefore
  works on the copy it has read.
\<close>

record db =
  project_row :: AnalysisProject
  task_rows :: "AnalysisTask list"
  keyword_rows :: "KeywordData list"
  project_saves :: "AnalysisProject list"
  invoked :: "task_type list"

definition save_project :: "AnalysisProject \<Rightarrow> db \<Rightarrow> db" where
  "save_project p s = s\<lparr>project_row := p, project_saves := project_saves s @ [p]\<rparr>"

definition save_task :: "nat \<Rightarrow> AnalysisTask \<Rightarrow> db \<Rightarrow> db" where
  "save_task task_id t s = s\<lparr>task_rows := (task_rows s)[task_id := t]\<rparr>"

section \<open>The stages (\<open>src/backend/aio_analyzer/apps/analysis/tasks.py\<close>)\<close>

subsection \<open>Storing rows\<close>

text \<open>
  \<open>KeywordData.objects.get_or_create(project=project, keyword=..., defaults=...)\<close>: the row
  of that keyword when there is one, else a new row made from the defaults. The result is
  the table, the position of the row and whether it was created.
\<close>

fun find_keyword :: "KeywordData list \<Rightarrow> string \<Rightarrow> nat option" where
  "find_keyword [] kw = None"
| "find_keyword (r # rs) kw =
     (if kd_keyword r = kw then Some 0 else map_option Suc (find_keyword rs kw))"

definition get_or_create ::
  "KeywordData list \<Rightarrow> string \<Rightarrow> KeywordData \<Rightarrow> KeywordData list \<times> nat \<times> bool"
where
  "get_or_create tbl kw defaults =
     (case find_keyword tbl kw of
        Some i \<Rightarrow> (tbl, i, False)
      | None \<Rightarrow> (tbl @ [defaults], length tbl, True))"

definition blank_keyword :: "string \<Rightarrow> source_type \<Rightarrow> KeywordData" where
  "blank_keyword kw src =
     \<lparr>kd_keyword = kw, source_type = src, gsc_clicks = None, gsc_impressions = None,
      gsc_ctr = None, gsc_position = None, ads_search_volume = None,
      ads_competition_level = [], ads_competition_index = None, ads_low_bid = None,
      ads_high_bid = None, aio_verified = None, aio_triggers = None\<rparr>"

definition gsc_defaults :: "gsc_row \<Rightarrow> KeywordData" where
  "gsc_defaults row =
     (blank_keyword (query row) Gsc)
       \<lparr>gsc_clicks := Some (clicks row), gsc_impressions := Some (impressions row),
        gsc_ctr := Some (ctr row), gsc_position := Some (position row)\<rparr>"

text \<open>The loop of the extraction stage over the fetched rows, counting the created ones.\<close>

fun store_gsc_rows :: "KeywordData list \<Rightarrow> int \<Rightarrow> gsc_row list \<Rightarrow> KeywordData list \<times> int" where
  "store_gsc_rows tbl keywords_created [] = (tbl, keywords_created)"
| "store_gsc_rows tbl keywords_created (row # rows) =
     (case get_or_create tbl (query row) (gsc_defaults row) of
        (tbl', i, created) \<Rightarrow>
          store_gsc_rows tbl' (if created then keywords_created + 1 else keywords_created) rows)"

definition set_ads_fields :: "ads_row \<Rightarrow> KeywordData \<Rightarrow> KeywordData" where
  "set_ads_fields row k =
     k\<lparr>ads_search_volume := Some (search_volume row),
       ads_competition_level := competition_level row,
       ads_competition_index := Some (competition_index row),
       ads_low_bid := Some (low_top_of_page_bid_usd row),
       ads_high_bid := Some (high_top_of_page_bid_usd row)\<rparr>"

definition ads_defaults :: "ads_row \<Rightarrow> KeywordData" where
  "ads_defaults row = set_ads_fields row (blank_keyword (keyword_idea row) Ads_expansion)"

text \<open>
  The loop of the expansion stage: a keyword that exists already has its Ads fields
  rewritten, a new one is counted.
\<close>

fun store_ads_rows :: "KeywordData list \<Rightarrow> int \<Rightarrow> ads_row list \<Rightarrow> KeywordData list \<times> int" where
  "store_ads_rows tbl keywords_created [] = (tbl, keywords_created)"
| "store_ads_rows tbl keywords_created (row # rows) =
     (case get_or_create tbl (keyword_idea row) (ads_defaults row) of
        (tbl', i, created) \<Rightarrow>
          (if \<not> created
           then store_ads_rows (tbl'[i := set_ads_fields row (tbl' ! i)]) keywords_created rows
           else store_ads_rows tbl' (keywords_created + 1) rows))"

text \<open>
  The loop of the validation stage over \<open>keywords_to_verify\<close>, the rows whose
  \<open>aio_verified\<close> is null: each is marked verified with the flag the batch returned for
  its keyword, \<open>False\<close> when the dictionary has no entry
  (\<open>validation_results.get(keyword, False)\<close>). The counters are \<open>verified_count\<close> and
  \<open>aio_count\<close>.
\<close>

fun store_validation ::
  "(string \<rightharpoonup> bool) \<Rightarrow> KeywordData list \<Rightarrow> KeywordData list \<times> int \<times> int"
where
  "store_validation validation_results [] = ([], 0, 0)"
| "store_validation validation_results (k # ks) =
     (case store_validation validation_results ks of
        (ks', verified_count, aio_count) \<Rightarrow>
          (if aio_verified k = None
           then (let has_aio = (case validation_results (kd_keyword k) of
                                  Some b \<Rightarrow> b | None \<Rightarrow> False)
                 in (k\<lparr>aio_verified := Some True, aio_triggers := Some has_aio\<rparr> # ks',
                     verified_count + 1,
                     if has_aio then aio_count + 1 else aio_count))
           else (k # ks', verified_count, aio_count)))"

text \<open>
  \<open>(aio_count / verified_count * 100) if verified_count > 0 else 0\<close>: the quotient of the two
  \<open>int\<close>s, a float, times 100, when the guard holds, and the \<open>int\<close> 0 otherwise. The same
  expression stands in \<open>batch_validate_aio\<close>, \<open>run_full_analysis\<close> and \<open>_preprocess_data\<close>.
\<close>

definition aio_percentage :: "int \<Rightarrow> int \<Rightarrow> py_error + py_number" where
  "aio_percentage aio_count verified_count =
     (if verified_count > 0
      then (case int_truediv aio_count verified_count of
              Inl exc \<Rightarrow> Inl exc
            | Inr q \<Rightarrow> Inr (Py_float (times_100 q)))
      else Inr (Py_int 0))"

text \<open>
  The \<open>result_data\<close> dictionary the validation stage builds from its two counters and the
  number of keywords it sent; building it evaluates the percentage.
\<close>

definition validation_summary :: "int \<Rightarrow> int \<Rightarrow> int \<Rightarrow> py_error + result_data" where
  "validation_summary verified_count aio_count api_calls_made =
     (case aio_percentage aio_count verified_count of
        Inl exc \<Rightarrow> Inl exc
      | Inr pct \<Rightarrow> Inr (Validation_result verified_count aio_count pct api_calls_made))"

subsection \<open>The environment of a run\<close>

text \<open>
  What the outside world answers. Each stage function may run several times (Celery
  retries), so the answers of the two Google services are indexed by the number of the
  retry. The validation stage also needs the API key and the outcomes of the HTTP
  attempts: of the connection test and, per retry, of the tasks of the batch.
  The module \<open>apps/reports\<close> is not part of the repository, so as the sources stand the
  import of the reporting task inside the orchestrator raises; the outcome of the
  reporting step is an input, an exception or the change made to the project row, so that
  the statements also cover an installation that has the module.

  The orchestrator is itself a Celery task and calls \<open>result.get()\<close> on the stage tasks it
  has queued. Inside a task of a worker, Celery (from version 4, which the \<open>CELERY\<close>
  settings namespace of \<open>celery.py\<close> needs) refuses the call: \<open>get\<close> raises \<open>RuntimeError\<close>
  before it waits. Where the tasks are applied in the calling process instead, \<open>delay\<close>
  has run the stage when it returns and \<open>get\<close> returns its result or raises its exception.
  Which of the two happens is an input as well.
\<close>

datatype get_behaviour = Get_raises | Get_waits

datatype gsc_outcome = Gsc_raises exn | Gsc_data "gsc_row list"

datatype ads_outcome = Ads_raises exn | Ads_data "ads_row list"

datatype report_outcome = Report_raises exn | Report_done "AnalysisProject \<Rightarrow> AnalysisProject"

record environment =
  gsc_api :: "nat \<Rightarrow> gsc_outcome"
  google_ads_customer_id :: string
  ads_api :: "nat \<Rightarrow> string list \<Rightarrow> ads_outcome"
  serp_api_key :: string
  serp_test_net :: "nat \<Rightarrow> nat \<Rightarrow> http_outcome"
  serp_net :: "nat \<Rightarrow> nat \<Rightarrow> nat \<Rightarrow> http_outcome"
  report :: report_outcome
  get_in_task :: get_behaviour

subsection \<open>One execution of a stage function\<close>

text \<open>
  Every stage function starts by marking its task running and by writing the step label
  into the copy of the project it has just read.
\<close>

definition begin_stage :: "task_type \<Rightarrow> nat \<Rightarrow> db \<Rightarrow> db" where
  "begin_stage ty task_id s =
     (let s1 = save_task task_id ((task_rows s ! task_id)\<lparr>task_status := Task_running\<rparr>) s;
          s2 = save_project ((project_row s1)\<lparr>current_step := Some ty\<rparr>) s1
      in s2\<lparr>invoked := invoked s2 @ [ty]\<rparr>)"

text \<open>The \<open>except Exception\<close> clause: the task is marked failed and keeps the message.\<close>

definition stage_failed :: "nat \<Rightarrow> exn \<Rightarrow> db \<Rightarrow> db" where
  "stage_failed task_id exc s =
     save_task task_id
       ((task_rows s ! task_id)\<lparr>task_status := Task_failed, task_error_message := exc\<rparr>) s"

text \<open>The early return of a stage that has nothing to work on.\<close>

definition stage_empty :: "nat \<Rightarrow> db \<Rightarrow> db" where
  "stage_empty task_id s =
     save_task task_id
       ((task_rows s ! task_id)
          \<lparr>task_status := Task_completed, result_data := Message_only, result_count := 0\<rparr>) s"

definition stage_completed :: "nat \<Rightarrow> result_data \<Rightarrow> int \<Rightarrow> db \<Rightarrow> db" where
  "stage_completed task_id res n s =
     save_task task_id
       ((task_rows s ! task_id)
          \<lparr>task_status := Task_completed, result_data := res, result_count := n,
           progress_percentage := 100\<rparr>) s"

definition set_progress :: "nat \<Rightarrow> real \<Rightarrow> db \<Rightarrow> db" where
  "set_progress task_id pct s =
     save_task task_id ((task_rows s ! task_id)\<lparr>progress_percentage := pct\<rparr>) s"

text \<open>
  \<open>extract_gsc_data\<close>, one execution. The result is the exception that left the function
  (\<open>Inl\<close>) or the count it returns (\<open>Inr\<close>).
\<close>

definition extract_gsc_data :: "environment \<Rightarrow> nat \<Rightarrow> nat \<Rightarrow> db \<Rightarrow> (exn + int) \<times> db" where
  "extract_gsc_data env task_id retries s =
     (let s1 = begin_stage Gsc_extraction task_id s;
          project = project_row s1
      in case gsc_api env retries of
           Gsc_raises exc \<Rightarrow> (Inl exc, stage_failed task_id exc s1)
         | Gsc_data gsc_data \<Rightarrow>
             if gsc_data = [] then (Inr 0, stage_empty task_id s1)
             else
               (let s2 = set_progress task_id 50 s1
                in case store_gsc_rows (keyword_rows s2) 0 gsc_data of
                     (tbl, keywords_created) \<Rightarrow>
                       (let s3 = s2\<lparr>keyword_rows := tbl\<rparr>;
                            s4 = stage_completed task_id
                                   (Gsc_result (int (length gsc_data)) keywords_created)
                                   keywords_created s3;
                            s5 = save_project
                                   (project\<lparr>completed_steps := completed_steps project + 1,
                                            total_keywords := int (length (keyword_rows s4))\<rparr>) s4
                        in (Inr keywords_created, s5))))"

text \<open>
  \<open>expand_keywords\<close>, one execution. The seeds are the keywords that came from the
  extraction; at most twenty are sent.
\<close>

definition expand_keywords :: "environment \<Rightarrow> nat \<Rightarrow> nat \<Rightarrow> db \<Rightarrow> (exn + int) \<times> db" where
  "expand_keywords env task_id retries s =
     (let s1 = begin_stage Keyword_expansion task_id s;
          project = project_row s1;
          seed_keywords = map kd_keyword (filter (\<lambda>k. source_type k = Gsc) (keyword_rows s1))
      in if seed_keywords = [] then (Inr 0, stage_empty task_id s1)
         else if google_ads_customer_id env = []
         then (Inl ''no Google Ads customer id'',
               stage_failed task_id ''no Google Ads customer id'' s1)
         else
           case ads_api env retries (take 20 seed_keywords) of
             Ads_raises exc \<Rightarrow> (Inl exc, stage_failed task_id exc s1)
           | Ads_data expanded_data \<Rightarrow>
               if expanded_data = [] then (Inr 0, stage_empty task_id s1)
               else
                 (let s2 = set_progress task_id 50 s1
                  in case store_ads_rows (keyword_rows s2) 0 expanded_data of
                       (tbl, keywords_created) \<Rightarrow>
                         (let s3 = s2\<lparr>keyword_rows := tbl\<rparr>;
                              s4 = stage_completed task_id
                                     (Ads_result (int (length expanded_data)) keywords_created)
                                     keywords_created s3;
                              s5 = save_project
                                     (project\<lparr>completed_steps := completed_steps project + 1,
                                              total_keywords := int (length (keyword_rows s4))\<rparr>) s4
                          in (Inr keywords_created, s5))))"

text \<open>The configuration the validation stage builds for its SERP client.\<close>

definition validation_config :: serp_config where
  "validation_config =
     \<lparr>api_provider = ''serper'', concurrent_requests = 3, rate_limit = 1 / 2, timeout = 30,
      retry_attempts = 2, retry_delay = 2\<rparr>"

text \<open>
  \<open>test_api_connection\<close> probes the keyword \<open>test\<close> and succeeds when the result has no
  error.
\<close>

definition test_api_connection :: "serp_config \<Rightarrow> (nat \<Rightarrow> http_outcome) \<Rightarrow> bool" where
  "test_api_connection cfg net = (error (fst (make_serp_request cfg net ''test'')) = None)"

text \<open>
  \<open>validate_aio_triggers\<close>, one execution. The key is missing when neither the profile nor
  the settings give one, and the client refuses the placeholder key.
\<close>

definition validate_aio_triggers :: "environment \<Rightarrow> nat \<Rightarrow> nat \<Rightarrow> db \<Rightarrow> (exn + int) \<times> db" where
  "validate_aio_triggers env task_id retries s =
     (let s1 = begin_stage Aio_validation task_id s;
          project = project_row s1;
          keywords_to_verify = filter (\<lambda>k. aio_verified k = None) (keyword_rows s1)
      in if keywords_to_verify = [] then (Inr 0, stage_empty task_id s1)
         else if serp_api_key env = [] \<or> serp_api_key env = ''YOUR_SERP_API_KEY''
         then (Inl ''no SERP API key'', stage_failed task_id ''no SERP API key'' s1)
         else if \<not> test_api_connection validation_config (serp_test_net env retries)
         then (Inl ''SERP API connection failed'',
               stage_failed task_id ''SERP API connection failed'' s1)
         else
           (let keywords_list = map kd_keyword keywords_to_verify;
                s2 = set_progress task_id 20 s1;
                validation_results =
                  fst (batch_validate_aio validation_config (serp_net env retries) keywords_list);
                s3 = set_progress task_id 80 s2
            in case store_validation validation_results (keyword_rows s3) of
                 (tbl, verified_count, aio_count) \<Rightarrow>
                   (let s4 = s3\<lparr>keyword_rows := tbl\<rparr>
                    in case validation_summary verified_count aio_count
                              (int (length keywords_list)) of
                         Inl exc \<Rightarrow>
                           (Inl (error_text exc), stage_failed task_id (error_text exc) s4)
                       | Inr summary \<Rightarrow>
                           (let s5 = stage_completed task_id summary verified_count s4;
                                s6 = save_project
                                       (project\<lparr>completed_steps := completed_steps project + 1,
                                                aio_keywords :=
                                                  int (length (filter
                                                                 (\<lambda>k. aio_triggers k = Some True)
                                                                 (keyword_rows s5)))\<rparr>) s5
                            in (Inr verified_count, s6)))))"

text \<open>
  The reporting step of the orchestrator (the import, \<open>delay\<close> and \<open>get\<close>): it either raises
  or returns, having rewritten the project row.
\<close>

definition generate_comprehensive_report ::
  "environment \<Rightarrow> nat \<Rightarrow> db \<Rightarrow> (exn + int) \<times> db"
where
  "generate_comprehensive_report env task_id s =
     (let s1 = s\<lparr>invoked := invoked s @ [Report_generation]\<rparr>
      in case report env of
           Report_raises exc \<Rightarrow> (Inl exc, s1)
         | Report_done f \<Rightarrow> (Inr 0, save_project (f (project_row s1)) s1))"

subsection \<open>Retries and the orchestrator\<close>

text \<open>
  A stage task that has been queued runs to its end: a stage function that fails asks
  Celery to run it again while \<open>self.request.retries < self.max_retries\<close>, and lets the
  exception out otherwise. The second argument counts the retries made, the third the
  retries left.
\<close>

fun run_task ::
  "(nat \<Rightarrow> db \<Rightarrow> (exn + int) \<times> db) \<Rightarrow> nat \<Rightarrow> nat \<Rightarrow> db \<Rightarrow> (exn + int) \<times> db"
where
  "run_task body retries 0 s = body retries s"
| "run_task body retries (Suc left) s =
     (case body retries s of
        (Inl exc, s') \<Rightarrow> run_task body (Suc retries) left s'
      | (Inr r, s') \<Rightarrow> (Inr r, s'))"

text \<open>
  Inside the orchestrator's \<open>try\<close> block a statement is reached only when the ones before
  it have returned: the first exception leaves the block.
\<close>

definition then_stage ::
  "(exn + int) \<times> db \<Rightarrow> (db \<Rightarrow> (exn + int) \<times> db) \<Rightarrow> (exn + int) \<times> db"
where
  "then_stage x stage = (case x of (Inl exc, s) \<Rightarrow> (Inl exc, s) | (Inr r, s) \<Rightarrow> stage s)"

text \<open>The \<open>except Exception\<close> clause of the orchestrator, on its own copy of the project.\<close>

definition project_failed :: "AnalysisProject \<Rightarrow> exn \<Rightarrow> db \<Rightarrow> db" where
  "project_failed project exc s =
     save_project (project\<lparr>status := Failed, error_message := exc\<rparr>) s"

text \<open>
  \<open>run_complete_analysis\<close>. The project is marked running and the four tasks are created.
  Then the extraction is queued (\<open>max_retries\<close> is 3, 3 and 2 for the three stages) and
  \<open>gsc_result.get()\<close> is called.

  Where \<open>get\<close> raises, the \<open>except\<close> clause marks the project failed and the orchestrator
  ends; the extraction it has queued is run by a worker all the same, here after the
  orchestrator has ended, and no other stage is queued.

  Where \<open>get\<close> waits, the stages run one after the other, each to its end, and the first
  exception fails the project.

  The orchestrator's own copy of the project, read at the start, is the one it saves at
  the end. The result is the database once the orchestrator and the tasks it has queued
  have ended.
\<close>

definition run_complete_analysis :: "environment \<Rightarrow> db \<Rightarrow> db" where
  "run_complete_analysis env s =
     (let project = (project_row s)\<lparr>status := Running\<rparr>;
          s0 = save_project project s;
          n = length (task_rows s0);
          s1 = s0\<lparr>task_rows := task_rows s0 @ [new_task Gsc_extraction,
                    new_task Keyword_expansion, new_task Aio_validation,
                    new_task Report_generation]\<rparr>
      in case get_in_task env of
           Get_raises \<Rightarrow>
             snd (run_task (extract_gsc_data env n) 0 3
                    (project_failed project ''Never call result.get() within a task!'' s1))
         | Get_waits \<Rightarrow>
             (let gsc = run_task (extract_gsc_data env n) 0 3 s1;
                  expansion = then_stage gsc (run_task (expand_keywords env (n + 1)) 0 3);
                  validation =
                    then_stage expansion (run_task (validate_aio_triggers env (n + 2)) 0 2);
                  reported = then_stage validation (generate_comprehensive_report env (n + 3))
              in case reported of
                   (Inl exc, s') \<Rightarrow> project_failed project exc s'
                 | (Inr r, s') \<Rightarrow>
                     save_project
                       (project\<lparr>status := Completed, completion_percentage := 100\<rparr>) s'))"

text \<open>Several runs on the same project, one environment per run.\<close>

fun run_all :: "environment list \<Rightarrow> db \<Rightarrow> db" where
  "run_all [] s = s"
| "run_all (env # envs) s = run_all envs (run_complete_analysis env s)"

definition new_db :: db where
  "new_db = \<lparr>project_row = new_project, task_rows = [], keyword_rows = [],
             project_saves = [], invoked = []\<rparr>"


section \<open>The command-line pipeline (\<open>src/src/aio_analyzer.py\<close>)\<close>




section \<open>The summary of a report (\<open>src/src/utils/report_generator.py\<close>)\<close>



section \<open>Predicates of the statements\<close>

text \<open>
  A later table keeps the outcomes of an earlier one: every row is still there, at its
  place and with its keyword, and a row whose validation outcome was set has the same
  outcome.
\<close>

definition outcomes_kept :: "KeywordData list \<Rightarrow> KeywordData list \<Rightarrow> bool" where
  "outcomes_kept tbl tbl' =
     (length tbl \<le> length tbl' \<and>
      (\<forall>i < length tbl.
         kd_keyword (tbl' ! i) = kd_keyword (tbl ! i) \<and>
         (aio_verified (tbl ! i) \<noteq> None \<longrightarrow>
            aio_verified (tbl' ! i) = aio_verified (tbl ! i) \<and>
            aio_triggers (tbl' ! i) = aio_triggers (tbl ! i))))"

text \<open>
  The rows the validation stage works on, and the number of rows that had no outcome in
  the earlier table and have the flag set in the later one.
\<close>

definition keywords_to_verify :: "db \<Rightarrow> KeywordData list" where
  "keywords_to_verify s = filter (\<lambda>k. aio_verified k = None) (keyword_rows s)"


section \<open>Concrete inputs\<close>

text \<open>
  The configuration of the validation stage with three attempts, and outcome functions used
  to run the definitions on concrete inputs.
\<close>

definition cfg1 :: serp_config where
  "cfg1 = \<lparr>api_provider = ''serper'', concurrent_requests = 3, rate_limit = 1/2, timeout = 30,
           retry_attempts = 3, retry_delay = 2\<rparr>"

definition net_hint :: "nat \<Rightarrow> http_outcome" where
  "net_hint a = (if a = 0 then Status_429 (Header_int 7) else Status_200 (Some (Parsed True None 0)))"

definition net_limited :: "nat \<Rightarrow> nat \<Rightarrow> http_outcome" where
  "net_limited i a = (if i = 1 then Status_429 No_header else Status_200 (Some (Parsed True None 0)))"

definition net_clean :: "nat \<Rightarrow> nat \<Rightarrow> http_outcome" where
  "net_clean i a = (if i = 1 then Status_200 (Some (Parsed False None 0)) else Status_200 (Some (Parsed True None 0)))"

definition net_flip :: "nat \<Rightarrow> nat \<Rightarrow> http_outcome" where
  "net_flip i a = Status_200 (Some (Parsed (i = 0) None 0))"



definition kw_seen :: KeywordData where
  "kw_seen = (blank_keyword ''what is x'' Gsc)\<lparr>aio_verified := Some True, aio_triggers := Some True\<rparr>"

definition demo_rows :: "gsc_row list" where
  "demo_rows = [\<lparr>query = ''what is x'', clicks = 5, impressions = 50, ctr = 1 / 10, position = 3\<rparr>,
                \<lparr>query = ''how to y'', clicks = 1, impressions = 20, ctr = 1 / 20, position = 7\<rparr>]"

definition env_demo :: environment where
  "env_demo =
     \<lparr>gsc_api = (\<lambda>r. Gsc_data demo_rows), google_ads_customer_id = ''123-456-7890'',
      ads_api = (\<lambda>r seeds. Ads_data []), serp_api_key = ''key'',
      serp_test_net = (\<lambda>r a. Status_200 (Some (Parsed False None 0))),
      serp_net = (\<lambda>r i a. Status_200 (Some (Parsed False None 0))),
      report = Report_raises ''No module named aio_analyzer.apps.reports'',
      get_in_task = Get_waits\<rparr>"

definition env_done :: environment where
  "env_done = env_demo\<lparr>report := Report_done (\<lambda>p. p\<lparr>completed_steps := completed_steps p + 1\<rparr>)\<rparr>"


definition env_worker :: environment where
  "env_worker = env_demo\<lparr>get_in_task := Get_raises\<rparr>"

text \<open>
  A database with a task of the extraction and one of the validation, and with a keyword
  that has been validated; one with a task and no keyword; and one with two keywords that
  have not been validated, of which the search answers an overview for the first.
\<close>

definition db_demo :: db where
  "db_demo =
     new_db\<lparr>task_rows := [new_task Gsc_extraction, new_task Aio_validation],
            keyword_rows := [kw_seen]\<rparr>"





text \<open>
  Three keywords under the configuration of the validation stage (three slots, one
  request every two seconds), started at clock 1000: the three tasks run one after the
  other, a millisecond apart, and the two that went to sleep run again two seconds later.
\<close>

definition race_schedule :: "event list" where
  "race_schedule =
     [Run 0, Tick (1 / 1000), Run 1, Tick (1 / 1000), Run 2, Tick 2, Run 1, Tick (1 / 1000),
      Run 2]"

text \<open>
  Four keywords under the same configuration, after the first three tasks have run: the
  three slots are taken.
\<close>

definition full_state :: sched where
  "full_state =
     \<lparr>now = 1000, last_request_time = 1000, sem_value = 0,
      phases = [In_flight, Sleeping 1002, Sleeping 1002, Waiting], starts = [(0, 1000)]\<rparr>"

section \<open>Properties of the batch\<close>

lemma process_keyword_fst:
  "fst (process_keyword cfg net kw) = Inr (kw, has_aio (fst (make_serp_request cfg net kw)))"
  by (simp add: process_keyword_def split: prod.splits)

lemma process_keyword_snd:
  "snd (process_keyword cfg net kw) = (kw, snd (make_serp_request cfg net kw))"
  by (simp add: process_keyword_def split: prod.splits)

lemma gather_length: "length (gather cfg net i kws) = length kws"
  by (induction kws arbitrary: i) simp_all

lemma gather_nth:
  "j < length kws \<Longrightarrow> gather cfg net i kws ! j = process_keyword cfg (net (i + j)) (kws ! j)"
proof (induction kws arbitrary: i j)
  case Nil
  then show ?case by simp
next
  case (Cons kw kws)
  then show ?case by (cases j) simp_all
qed

lemma dom_collect_results:
  "dom (collect_results results rs) = dom results \<union> {kw. \<exists>h. Inr (kw, h) \<in> set rs}"
proof (induction rs arbitrary: results)
  case Nil
  then show ?case by simp
next
  case (Cons r rs)
  show ?case
  proof (cases r)
    case (Inl e)
    then show ?thesis by (auto simp: Cons.IH)
  next
    case (Inr p)
    obtain kw h where p: "p = (kw, h)" by (cases p)
    have "dom (collect_results (results(kw \<mapsto> h)) rs)
          = insert kw (dom results) \<union> {k. \<exists>b. Inr (k, b) \<in> set rs}"
      by (simp add: Cons.IH del: fun_upd_apply)
    then show ?thesis using Inr p by auto
  qed
qed

lemma gather_results_keys:
  "{kw. \<exists>h. Inr (kw, h) \<in> fst ` set (gather cfg net i kws)} = set kws"
proof (induction kws arbitrary: i)
  case Nil
  then show ?case by simp
next
  case (Cons kw kws)
  have "{k. \<exists>h. Inr (k, h) \<in> fst ` set (gather cfg net i (kw # kws))}
        = insert kw {k. \<exists>h. Inr (k, h) \<in> fst ` set (gather cfg net (Suc i) kws)}"
    by (auto simp: process_keyword_fst)
  then show ?case using Cons.IH by simp
qed

text \<open>
  C1. For every keyword list the key set of the returned dictionary is exactly the set of
  the input keywords, whatever the outcomes of the attempts are (so also when probes
  fail), and the dictionary is empty for the empty list.
\<close>

theorem batch_keys_exact:
  "dom (fst (batch_validate_aio cfg net keywords)) = set keywords
   \<and> fst (batch_validate_aio cfg net []) = Map.empty"
  by (simp add: batch_validate_aio_def dom_collect_results gather_results_keys)


section \<open>Properties of one probe\<close>

lemma attempt_body_fail: "\<not> is_success out \<Longrightarrow> \<exists>zs. attempt_body cfg kw out = Inr zs"
  by (cases "(cfg, kw, out)" rule: attempt_body.cases) auto

lemma attempt_body_success: "is_success out \<Longrightarrow> \<exists>r. attempt_body cfg kw out = Inl r"
  by (cases "(cfg, kw, out)" rule: attempt_body.cases) auto

lemma request_loop_Cons_fail:
  "attempt_body cfg kw (net a) = Inr zs \<Longrightarrow>
   request_loop cfg net kw (a # as) =
     (fst (request_loop cfg net kw as),
      \<lparr>attempt_no = a, http_verb = verb cfg, slept = zs @ backoff cfg a\<rparr>
        # snd (request_loop cfg net kw as))"
  by (simp split: prod.splits)

lemma request_loop_all_fail:
  "\<forall>a \<in> set as. \<not> is_success (net a) \<Longrightarrow> fst (request_loop cfg net kw as) = None"
proof (induction as)
  case Nil
  then show ?case by simp
next
  case (Cons a as)
  then obtain zs where "attempt_body cfg kw (net a) = Inr zs"
    using attempt_body_fail [of "net a" cfg kw] by auto
  then show ?case using Cons by (simp add: request_loop_Cons_fail del: request_loop.simps)
qed

lemma request_loop_log_nth:
  "k < length as \<Longrightarrow> \<forall>a \<in> set (take k as). \<not> is_success (net a) \<Longrightarrow>
   snd (request_loop cfg net kw as) ! k =
     \<lparr>attempt_no = as ! k, http_verb = verb cfg,
      slept = (case attempt_body cfg kw (net (as ! k)) of Inl r \<Rightarrow> [] | Inr zs \<Rightarrow> zs @ backoff cfg (as ! k))\<rparr>"
proof (induction as arbitrary: k)
  case Nil
  then show ?case by simp
next
  case (Cons a as)
  show ?case
  proof (cases k)
    case 0
    then show ?thesis by (simp split: sum.splits prod.splits)
  next
    case (Suc k')
    then have "\<not> is_success (net a)" using Cons.prems by simp
    then obtain zs where zs: "attempt_body cfg kw (net a) = Inr zs"
      using attempt_body_fail [of "net a" cfg kw] by auto
    have "snd (request_loop cfg net kw as) ! k' =
     \<lparr>attempt_no = as ! k', http_verb = verb cfg,
      slept = (case attempt_body cfg kw (net (as ! k')) of Inl r \<Rightarrow> [] | Inr zs \<Rightarrow> zs @ backoff cfg (as ! k'))\<rparr>"
      using Cons.IH [of k'] Cons.prems Suc by simp
    then show ?thesis using zs Suc
      by (simp add: request_loop_Cons_fail del: request_loop.simps split: sum.splits)
  qed
qed

lemma make_serp_request_all_fail:
  "\<forall>a < nat (retry_attempts cfg). \<not> is_success (net a) \<Longrightarrow>
   fst (make_serp_request cfg net kw) = failed_result cfg kw"
  using request_loop_all_fail [of "[0..<nat (retry_attempts cfg)]" net cfg kw]
  by (auto simp: make_serp_request_def split: prod.splits option.splits)

lemma make_serp_request_log:
  "snd (make_serp_request cfg net kw) = snd (request_loop cfg net kw [0..<nat (retry_attempts cfg)])"
  by (simp add: make_serp_request_def split: prod.splits option.splits)

lemma collect_absent:
  "k \<notin> set kws \<Longrightarrow> collect_results m (map fst (gather cfg net i kws)) k = m k"
proof (induction kws arbitrary: m i)
  case Nil
  then show ?case by simp
next
  case (Cons kw kws)
  then show ?case by (simp add: process_keyword_fst)
qed

lemma collect_last:
  "j < length kws \<Longrightarrow> \<forall>l. j < l \<and> l < length kws \<longrightarrow> kws ! l \<noteq> kws ! j \<Longrightarrow>
   collect_results m (map fst (gather cfg net i kws)) (kws ! j)
     = Some (has_aio (fst (make_serp_request cfg (net (i + j)) (kws ! j))))"
proof (induction kws arbitrary: m i j)
  case Nil
  then show ?case by simp
next
  case (Cons kw kws)
  show ?case
  proof (cases j)
    case 0
    have "kw \<notin> set kws"
    proof
      assume "kw \<in> set kws"
      then obtain l where "l < length kws" "kws ! l = kw" by (auto simp: in_set_conv_nth)
      then show False using Cons.prems(2) [rule_format, of "Suc l"] 0 by simp
    qed
    then show ?thesis using 0 by (simp add: process_keyword_fst collect_absent)
  next
    case (Suc j')
    have a: "j' < length kws" using Cons.prems Suc by simp
    have b: "\<forall>l. j' < l \<and> l < length kws \<longrightarrow> kws ! l \<noteq> kws ! j'"
    proof (intro allI impI)
      fix l assume "j' < l \<and> l < length kws"
      then show "kws ! l \<noteq> kws ! j'" using Cons.prems(2) [rule_format, of "Suc l"] Suc by simp
    qed
    show ?thesis using Cons.IH [OF a b, of "m(kw \<mapsto> has_aio (fst (make_serp_request cfg (net i) kw)))" "Suc i"] Suc
      by (simp add: process_keyword_fst del: fun_upd_apply)
  qed
qed


lemma request_loop_nonempty: "as \<noteq> [] \<Longrightarrow> snd (request_loop cfg net kw as) \<noteq> []"
  by (cases as) (auto split: sum.splits prod.splits)

lemma gather_keywords: "map (fst \<circ> snd) (gather cfg net i kws) = kws"
  by (induction kws arbitrary: i) (simp_all add: process_keyword_snd)

lemma gather_logs:
  "p \<in> set (gather cfg net i kws) \<Longrightarrow> \<exists>j kw. snd (snd p) = snd (make_serp_request cfg (net j) kw)"
proof (induction kws arbitrary: i)
  case Nil
  then show ?case by simp
next
  case (Cons kw kws)
  from Cons.prems have "p = process_keyword cfg (net i) kw \<or> p \<in> set (gather cfg net (Suc i) kws)"
    by simp
  then show ?case
  proof
    assume "p = process_keyword cfg (net i) kw"
    then have "snd (snd p) = snd (make_serp_request cfg (net i) kw)"
      by (simp add: process_keyword_snd)
    then show ?thesis by blast
  next
    assume "p \<in> set (gather cfg net (Suc i) kws)"
    then show ?thesis by (rule Cons.IH)
  qed
qed


text \<open>
  C5, as the code has it. When every attempt of the probe at position \<open>i\<close> fails (any
  outcome but a readable 200 response, so also a 429 response on each attempt), the probe
  returns a result with \<open>has_aio = False\<close> and \<open>error\<close> set to the retries-exhausted
  message; the task of that position ends with the value \<open>(keyword, False)\<close> and not with
  an exception; the dictionary still has exactly the input keywords as keys; and, when
  position \<open>i\<close> is the last occurrence of its keyword, the dictionary maps the keyword to
  \<open>False\<close>. The dictionary holds the flag alone: the error stays in the probe's result.
\<close>

theorem exhausted_probe_isolated:
  assumes "i < length keywords"
      and "\<forall>a < nat (retry_attempts cfg). \<not> is_success (net i a)"
  shows "fst (make_serp_request cfg (net i) (keywords ! i)) =
           \<lparr>keyword = keywords ! i, has_aio = False, aio_content = None, total_results = 0,
            error = Some (Request_failed (retry_attempts cfg))\<rparr>
       \<and> fst (gather cfg net 0 keywords ! i) = Inr (keywords ! i, False)
       \<and> dom (fst (batch_validate_aio cfg net keywords)) = set keywords
       \<and> ((\<forall>l. i < l \<and> l < length keywords \<longrightarrow> keywords ! l \<noteq> keywords ! i)
            \<longrightarrow> fst (batch_validate_aio cfg net keywords) (keywords ! i) = Some False)"
proof -
  have r: "fst (make_serp_request cfg (net i) (keywords ! i)) = failed_result cfg (keywords ! i)"
    using assms(2) by (rule make_serp_request_all_fail)
  have t: "fst (gather cfg net 0 keywords ! i) = Inr (keywords ! i, False)"
    using assms(1) r by (simp add: gather_nth process_keyword_fst failed_result_def)
  have d: "dom (fst (batch_validate_aio cfg net keywords)) = set keywords"
    by (simp add: batch_validate_aio_def dom_collect_results gather_results_keys)
  have ne: "keywords \<noteq> []" using assms(1) by auto
  have v: "fst (batch_validate_aio cfg net keywords) (keywords ! i) = Some False"
    if "\<forall>l. i < l \<and> l < length keywords \<longrightarrow> keywords ! l \<noteq> keywords ! i"
    using collect_last [OF assms(1) that, of Map.empty cfg net 0] r ne
    by (simp add: batch_validate_aio_def failed_result_def)
  show ?thesis using r t d v by (simp add: failed_result_def)
qed

theorem exhausted_probe_isolated_witness:
  "1 < length [''a'', ''b'', ''c'']
   \<and> list_all (\<lambda>a. \<not> is_success (net_limited 1 a)) [0..<nat (retry_attempts cfg1)]
   \<and> error (fst (make_serp_request cfg1 (net_limited 1) ''b'')) = Some (Request_failed 3)
   \<and> fst (batch_validate_aio cfg1 net_limited [''a'', ''b'', ''c'']) ''b'' = Some False
   \<and> dom (fst (batch_validate_aio cfg1 net_limited [''a'', ''b'', ''c''])) = {''a'', ''b'', ''c''}"
  using exhausted_probe_isolated [of 1 "[''a'', ''b'', ''c'']" cfg1 net_limited]
  by (simp add: cfg1_def net_limited_def nth_Cons' less_Suc_eq list_all_iff)


text \<open>
  The returned dictionary does not tell a probe that exhausted its retries from a probe that
  was answered and found no overview: the two batches below return the same dictionary,
  although the probe of \<open>''b''\<close> has its error set in the first and unset in the second.
\<close>

theorem batch_outcome_error_counterexample:
  "fst (batch_validate_aio cfg1 net_limited [''a'', ''b'', ''c''])
     = fst (batch_validate_aio cfg1 net_clean [''a'', ''b'', ''c''])
   \<and> error (fst (make_serp_request cfg1 (net_limited 1) ''b'')) = Some (Request_failed 3)
   \<and> error (fst (make_serp_request cfg1 (net_clean 1) ''b'')) = None"
  by (simp add: batch_validate_aio_def process_keyword_def make_serp_request_def cfg1_def
        net_limited_def net_clean_def backoff_def verb_def upt_rec parse_serp_response_def
        failed_result_def)


text \<open>
  C6, as the code has it. When attempt \<open>a\<close> is reached (the attempts before it failed)
  and is answered by a 429 response, the client sleeps the value of the
  \<open>Retry-After\<close> header when \<open>int\<close> reads it (the configured \<open>retry_delay\<close> when the header
  is absent, nothing when \<open>int\<close> raises), and then, when another attempt follows, it sleeps
  the linear back-off \<open>retry_delay * (attempt + 1)\<close> as well: the hint is added to the
  back-off of that attempt, it does not replace it.
\<close>

theorem retry_after_then_backoff:
  assumes "int a < retry_attempts cfg"
      and "\<forall>b < a. \<not> is_success (net b)"
      and "net a = Status_429 hdr"
  shows "slept (snd (make_serp_request cfg net kw) ! a) =
           (case hdr of No_header \<Rightarrow> [retry_delay cfg] | Header_int h \<Rightarrow> [h] | Header_not_int \<Rightarrow> [])
           @ (if int a < retry_attempts cfg - 1 then [retry_delay cfg * (int a + 1)] else [])"
proof -
  let ?as = "[0..<nat (retry_attempts cfg)]"
  have k: "a < length ?as" using assms(1) by simp
  have nth: "?as ! a = a" using k by simp
  have pre: "\<forall>b \<in> set (take a ?as). \<not> is_success (net b)"
    using assms(2) k by (auto simp: take_upt)
  have "snd (make_serp_request cfg net kw) ! a = snd (request_loop cfg net kw ?as) ! a"
    by (simp only: make_serp_request_log)
  also have "\<dots> = \<lparr>attempt_no = ?as ! a, http_verb = verb cfg,
      slept = (case attempt_body cfg kw (net (?as ! a)) of Inl r \<Rightarrow> []
               | Inr zs \<Rightarrow> zs @ backoff cfg (?as ! a))\<rparr>"
    by (rule request_loop_log_nth [OF k pre])
  finally show ?thesis
    using assms(3) nth by (cases hdr) (simp_all add: backoff_def)
qed

theorem retry_after_then_backoff_witness:
  "int 0 < retry_attempts cfg1
   \<and> list_all (\<lambda>b. \<not> is_success (net_hint b)) [0..<0]
   \<and> net_hint 0 = Status_429 (Header_int 7)
   \<and> slept (snd (make_serp_request cfg1 net_hint ''what is x'') ! 0) = [7, 2]"
  using retry_after_then_backoff [of 0 cfg1 net_hint "Header_int 7" "''what is x''"]
  by (simp add: cfg1_def net_hint_def)


text \<open>
  With three attempts, a delay of 2 and a first answer of 429 with a hint of 7 seconds, the
  client sleeps 7 and then 2 before the second attempt, not 7 alone.
\<close>

theorem retry_after_instead_of_backoff_counterexample:
  "slept (snd (make_serp_request cfg1 net_hint ''what is x'') ! 0) \<noteq> [7]
   \<and> map slept (snd (make_serp_request cfg1 net_hint ''what is x'')) = [[7, 2], []]"
  by (simp add: make_serp_request_def cfg1_def net_hint_def backoff_def verb_def upt_rec)


text \<open>
  C10. The batch runs one probe per element of the list, in the order of the list: the
  keywords of the probes run are the input list itself, so a keyword occurring \<open>k\<close> times
  is probed \<open>k\<close> times; with at least one attempt configured every probe issues at least
  one request; and the dictionary holds, for a keyword, the flag of the probe made for its
  last occurrence in the list (the loop over the gathered results runs in list order).
\<close>

theorem one_probe_per_list_element:
  "map fst (snd (batch_validate_aio cfg net keywords)) = keywords
   \<and> (\<forall>w. count_list (map fst (snd (batch_validate_aio cfg net keywords))) w = count_list keywords w)
   \<and> (0 < retry_attempts cfg \<longrightarrow> (\<forall>p \<in> set (snd (batch_validate_aio cfg net keywords)). snd p \<noteq> []))
   \<and> (\<forall>j < length keywords.
         (\<forall>l. j < l \<and> l < length keywords \<longrightarrow> keywords ! l \<noteq> keywords ! j) \<longrightarrow>
         fst (batch_validate_aio cfg net keywords) (keywords ! j)
           = Some (has_aio (fst (make_serp_request cfg (net j) (keywords ! j)))))"
proof -
  have a: "map fst (snd (batch_validate_aio cfg net keywords)) = keywords"
    using gather_keywords [where cfg = cfg and net = net and i = 0 and kws = "keywords"] by (simp add: batch_validate_aio_def)
  have c: "snd p \<noteq> []"
    if "0 < retry_attempts cfg" "p \<in> set (snd (batch_validate_aio cfg net keywords))" for p
  proof -
    from that(2) obtain q where q: "q \<in> set (gather cfg net 0 keywords)" "p = snd q"
      by (auto simp: batch_validate_aio_def split: if_splits)
    then obtain j kw where "snd p = snd (make_serp_request cfg (net j) kw)"
      using gather_logs [OF q(1)] by auto
    moreover have "snd (request_loop cfg (net j) kw [0..<nat (retry_attempts cfg)]) \<noteq> []"
      using that(1) by (intro request_loop_nonempty) simp
    ultimately show ?thesis
      by (simp add: make_serp_request_log)
  qed
  have d: "fst (batch_validate_aio cfg net keywords) (keywords ! j)
           = Some (has_aio (fst (make_serp_request cfg (net j) (keywords ! j))))"
    if "j < length keywords" "\<forall>l. j < l \<and> l < length keywords \<longrightarrow> keywords ! l \<noteq> keywords ! j" for j
  proof -
    have "keywords \<noteq> []" using that(1) by auto
    then show ?thesis using collect_last [OF that, of Map.empty cfg net 0]
      by (simp add: batch_validate_aio_def)
  qed
  show ?thesis using a c d by simp
qed

theorem one_probe_per_list_element_witness:
  "map fst (snd (batch_validate_aio cfg1 net_flip [''a'', ''b'', ''a''])) = [''a'', ''b'', ''a'']
   \<and> count_list (map fst (snd (batch_validate_aio cfg1 net_flip [''a'', ''b'', ''a'']))) ''a'' = 2
   \<and> 0 < retry_attempts cfg1
   \<and> list_all (\<lambda>p. snd p \<noteq> []) (snd (batch_validate_aio cfg1 net_flip [''a'', ''b'', ''a'']))
   \<and> fst (batch_validate_aio cfg1 net_flip [''a'', ''b'', ''a'']) ''a'' = Some False
   \<and> has_aio (fst (make_serp_request cfg1 (net_flip 0) ''a''))"
proof -
  let ?ks = "[''a'', ''b'', ''a'']"
  note t = one_probe_per_list_element [of cfg1 net_flip ?ks]
  have 1: "map fst (snd (batch_validate_aio cfg1 net_flip ?ks)) = ?ks"
    using t by blast
  have 2: "count_list (map fst (snd (batch_validate_aio cfg1 net_flip ?ks))) ''a'' = 2"
    using 1 by simp
  have 3: "0 < retry_attempts cfg1"
    by (simp add: cfg1_def)
  have 4: "\<forall>p \<in> set (snd (batch_validate_aio cfg1 net_flip ?ks)). snd p \<noteq> []"
    using t 3 by blast
  have "(2::nat) < length ?ks"
    by simp
  moreover have "\<forall>l. 2 < l \<and> l < length ?ks \<longrightarrow> ?ks ! l \<noteq> ?ks ! 2"
    by auto
  ultimately have "fst (batch_validate_aio cfg1 net_flip ?ks) (?ks ! 2)
      = Some (has_aio (fst (make_serp_request cfg1 (net_flip 2) (?ks ! 2))))"
    using t by blast
  moreover have "\<not> has_aio (fst (make_serp_request cfg1 (net_flip 2) ''a''))"
    by (simp add: make_serp_request_def cfg1_def net_flip_def upt_rec parse_serp_response_def)
  ultimately have 5: "fst (batch_validate_aio cfg1 net_flip ?ks) ''a'' = Some False"
    by simp
  have 6: "has_aio (fst (make_serp_request cfg1 (net_flip 0) ''a''))"
    by (simp add: make_serp_request_def cfg1_def net_flip_def upt_rec parse_serp_response_def)
  show ?thesis using 1 2 3 4 5 6 by (simp add: list_all_iff)
qed


section \<open>Properties of admission and pacing\<close>

lemma filter_update_count:
  "i < length xs \<Longrightarrow>
   length (filter P (xs[i := y])) + (if P (xs ! i) then 1 else 0)
     = length (filter P xs) + (if P y then 1 else 0)"
proof (induction xs arbitrary: i)
  case Nil
  then show ?case by simp
next
  case (Cons x xs)
  then show ?case by (cases i) auto
qed

lemma step_slots:
  assumes "slots_inv cfg s" "step cfg s e = Some s'"
  shows "slots_inv cfg s'"
proof (cases e)
  case (Tick d)
  then show ?thesis using assms by (auto simp: slots_inv_def slots_held_def split: if_splits)
next
  case (Run i)
  show ?thesis
  proof (cases "length (phases s) \<le> i")
    case True
    then show ?thesis using assms Run by simp
  next
    case False
    then have i: "i < length (phases s)" by simp
    note c = filter_update_count [OF i, of holds_slot]
    show ?thesis
    proof (cases "phases s ! i")
      case Waiting
      then show ?thesis
        using assms Run i c [of "Sleeping t" for t] c [of In_flight]
        by (auto simp: slots_inv_def slots_held_def rate_limit_delay_def start_probe_def Let_def
                 split: if_splits)
    next
      case (Sleeping t)
      then show ?thesis
        using assms Run i c [of In_flight]
        by (auto simp: slots_inv_def slots_held_def wake_up_def start_probe_def split: if_splits)
    next
      case In_flight
      then show ?thesis
        using assms Run i c [of Done]
        by (auto simp: slots_inv_def slots_held_def split: if_splits)
    next
      case Done
      then show ?thesis using assms Run i by simp
    qed
  qed
qed

lemma run_slots: "slots_inv cfg s \<Longrightarrow> run cfg s es = Some s' \<Longrightarrow> slots_inv cfg s'"
proof (induction es arbitrary: s)
  case Nil
  then show ?case by simp
next
  case (Cons e es)
  then show ?case by (auto split: option.splits dest: step_slots)
qed

lemma init_slots: "slots_inv cfg (init_sched cfg n t0)"
  by (simp add: slots_inv_def slots_held_def init_sched_def)

lemma in_flight_le_held: "probes_in_flight s \<le> slots_held s"
proof -
  have "length (filter (\<lambda>p. p = In_flight) ps) \<le> length (filter holds_slot ps)" for ps
    by (induction ps) auto
  then show ?thesis by (simp add: probes_in_flight_def slots_held_def)
qed

text \<open>
  C3. In every state a batch can reach, whatever the order in which its tasks run and
  whatever time passes, the probes in flight are at most \<open>concurrent_requests\<close>: the slots
  held and the counter of the semaphore always add up to that bound. A waiting task
  cannot start while all slots are held.
\<close>

theorem concurrency_bound:
  assumes "run cfg (init_sched cfg n t0) es = Some s"
  shows "probes_in_flight s \<le> concurrent_requests cfg
       \<and> slots_held s + sem_value s = concurrent_requests cfg
       \<and> (\<forall>i. i < length (phases s) \<and> phases s ! i = Waiting \<and> slots_held s = concurrent_requests cfg
              \<longrightarrow> step cfg s (Run i) = None)"
proof -
  have inv: "slots_held s + sem_value s = concurrent_requests cfg"
    using run_slots [OF init_slots assms] by (simp add: slots_inv_def)
  then have "probes_in_flight s \<le> concurrent_requests cfg"
    using in_flight_le_held [of s] by simp
  moreover have "step cfg s (Run i) = None"
    if "i < length (phases s)" "phases s ! i = Waiting" "slots_held s = concurrent_requests cfg" for i
    using that inv by simp
  ultimately show ?thesis using inv by blast
qed


theorem concurrency_bound_witness:
  "run validation_config (init_sched validation_config 4 1000) [Run 0, Run 1, Run 2] = Some full_state
   \<and> probes_in_flight full_state \<le> concurrent_requests validation_config
   \<and> slots_held full_state = 3
   \<and> phases full_state ! 3 = Waiting
   \<and> step validation_config full_state (Run 3) = None"
proof -
  have r: "run validation_config (init_sched validation_config 4 1000) [Run 0, Run 1, Run 2]
             = Some full_state"
    by (simp add: full_state_def validation_config_def init_sched_def rate_limit_delay_def
          start_probe_def Let_def eval_nat_numeral)
  have h: "slots_held full_state = 3" "phases full_state ! 3 = Waiting"
    "(3::nat) < length (phases full_state)" "concurrent_requests validation_config = 3"
    by (simp_all add: full_state_def slots_held_def validation_config_def)
  note t = concurrency_bound [OF r]
  have "step validation_config full_state (Run 3) = None"
    using t h by simp
  then show ?thesis using r t h by simp
qed

text \<open>
  C2 on the code. The pacing delay reads the last request time, sleeps, and writes the
  last request time only after the sleep, and nothing holds the other tasks back in
  between. With the configuration of the validation stage (one request every two
  seconds, three slots) the second and the third task read the same last request time,
  sleep until the same moment and start their probes a millisecond apart, where the
  interval asked for is two seconds.
\<close>

theorem pacing_race:
  "map_option starts (run validation_config (init_sched validation_config 3 1000) race_schedule)
     = Some [(0, 1000), (1, 1002 + 2 / 1000), (2, 1002 + 3 / 1000)]
   \<and> 1 / rate_limit validation_config = 2
   \<and> gaps [1000, 1002 + 2 / 1000, 1002 + 3 / 1000] = [2 + 2 / 1000, 1 / 1000]"
  by (simp add: race_schedule_def validation_config_def init_sched_def rate_limit_delay_def
        wake_up_def start_probe_def Let_def eval_nat_numeral)


section \<open>Properties of the stages\<close>

lemma store_validation_eq:
  "store_validation res tbl =
     (map (\<lambda>k. if aio_verified k = None
                then k\<lparr>aio_verified := Some True,
                       aio_triggers := Some (case res (kd_keyword k) of Some b \<Rightarrow> b | None \<Rightarrow> False)\<rparr>
                else k) tbl,
      int (length (filter (\<lambda>k. aio_verified k = None) tbl)),
      int (length (filter (\<lambda>k. res (kd_keyword k) = Some True)
                     (filter (\<lambda>k. aio_verified k = None) tbl))))"
proof (induction tbl)
  case Nil
  then show ?case by simp
next
  case (Cons k ks)
  then show ?case by (cases "res (kd_keyword k)") (simp_all add: Let_def)
qed


subsection \<open>The keyword table\<close>

lemma outcomes_kept_refl: "outcomes_kept tbl tbl"
  by (simp add: outcomes_kept_def)

lemma outcomes_kept_trans:
  "outcomes_kept a b \<Longrightarrow> outcomes_kept b c \<Longrightarrow> outcomes_kept a c"
  unfolding outcomes_kept_def by (metis le_trans less_le_trans)

lemma find_keyword_Some: "find_keyword tbl kw = Some i \<Longrightarrow> i < length tbl \<and> kd_keyword (tbl ! i) = kw"
  by (induction tbl arbitrary: i) (auto split: if_splits)

lemma find_keyword_None: "find_keyword tbl kw = None \<longleftrightarrow> kw \<notin> kd_keyword ` set tbl"
  by (induction tbl) auto

lemma get_or_create_kept:
  "get_or_create tbl kw d = (tbl', i, c) \<Longrightarrow>
   take (length tbl) tbl' = tbl \<and> i < length tbl' \<and> (c \<longleftrightarrow> kw \<notin> kd_keyword ` set tbl)
   \<and> (\<not> c \<longrightarrow> tbl' = tbl \<and> kd_keyword (tbl ! i) = kw)
   \<and> (c \<longrightarrow> tbl' = tbl @ [d])"
  by (auto simp: get_or_create_def find_keyword_None split: option.splits dest: find_keyword_Some)

lemma store_gsc_rows_prefix:
  "take (length tbl) (fst (store_gsc_rows tbl n rows)) = tbl"
proof (induction rows arbitrary: tbl n)
  case Nil
  then show ?case by simp
next
  case (Cons row rows)
  obtain tbl' i c where g: "get_or_create tbl (query row) (gsc_defaults row) = (tbl', i, c)"
    by (cases "get_or_create tbl (query row) (gsc_defaults row)") auto
  have p: "take (length tbl) tbl' = tbl" using get_or_create_kept [OF g] by simp
  then have le: "length tbl \<le> length tbl'" by (metis length_take min.cobounded2 min.commute)
  let ?n = "if c then n + 1 else n"
  have "take (length tbl') (fst (store_gsc_rows tbl' ?n rows)) = tbl'" by (rule Cons.IH)
  then have "take (length tbl) (take (length tbl') (fst (store_gsc_rows tbl' ?n rows))) = take (length tbl) tbl'"
    by simp
  then have "take (length tbl) (fst (store_gsc_rows tbl' ?n rows)) = tbl"
    using le p by (simp add: min_def)
  then show ?case using g by simp
qed

lemma store_gsc_rows_present:
  "\<forall>r \<in> set rows. query r \<in> kd_keyword ` set tbl \<Longrightarrow> store_gsc_rows tbl n rows = (tbl, n)"
proof (induction rows arbitrary: tbl n)
  case Nil
  then show ?case by simp
next
  case (Cons row rows)
  then have "find_keyword tbl (query row) \<noteq> None" by (simp add: find_keyword_None)
  then show ?case using Cons by (auto simp: get_or_create_def)
qed

lemma store_gsc_rows_keys:
  "kd_keyword ` set (fst (store_gsc_rows tbl n rows)) = kd_keyword ` set tbl \<union> query ` set rows"
proof (induction rows arbitrary: tbl n)
  case Nil
  then show ?case by simp
next
  case (Cons row rows)
  show ?case
  proof (cases "find_keyword tbl (query row)")
    case None
    then show ?thesis using Cons.IH [of "tbl @ [gsc_defaults row]" "n + 1"]
      by (auto simp: get_or_create_def gsc_defaults_def blank_keyword_def)
  next
    case (Some i)
    then have "query row \<in> kd_keyword ` set tbl" using find_keyword_None [of tbl "query row"] by auto
    then show ?thesis using Some Cons.IH [of tbl n]
      by (auto simp: get_or_create_def)
  qed
qed

lemma prefix_outcomes_kept: "take (length tbl) tbl' = tbl \<Longrightarrow> outcomes_kept tbl tbl'"
  unfolding outcomes_kept_def
  by (metis length_take min.cobounded2 min.commute nth_take)

lemma store_ads_rows_kept: "outcomes_kept tbl (fst (store_ads_rows tbl n rows))"
proof (induction rows arbitrary: tbl n)
  case Nil
  then show ?case by (simp add: outcomes_kept_refl)
next
  case (Cons row rows)
  obtain tbl' i c where g: "get_or_create tbl (keyword_idea row) (ads_defaults row) = (tbl', i, c)"
    by (cases "get_or_create tbl (keyword_idea row) (ads_defaults row)") auto
  note k = get_or_create_kept [OF g]
  show ?case
  proof (cases c)
    case True
    have "outcomes_kept tbl tbl'" using k by (intro prefix_outcomes_kept) simp
    then show ?thesis using g True Cons.IH [of tbl' "n + 1"] by (auto intro: outcomes_kept_trans)
  next
    case False
    then have e: "tbl' = tbl" using k by simp
    have "outcomes_kept tbl (tbl[i := set_ads_fields row (tbl ! i)])"
      using k e by (auto simp: outcomes_kept_def nth_list_update set_ads_fields_def)
    then show ?thesis
      using g False e Cons.IH [of "tbl[i := set_ads_fields row (tbl ! i)]" n]
      by (auto intro: outcomes_kept_trans)
  qed
qed

lemma store_validation_kept: "outcomes_kept tbl (fst (store_validation res tbl))"
  by (simp add: store_validation_eq outcomes_kept_def)

lemma store_validation_nth:
  "i < length tbl \<Longrightarrow> aio_verified (tbl ! i) \<noteq> None \<Longrightarrow> fst (store_validation res tbl) ! i = tbl ! i"
  by (auto simp: store_validation_eq)

lemma store_validation_length: "length (fst (store_validation res tbl)) = length tbl"
  by (simp add: store_validation_eq)


subsection \<open>What a stage leaves alone\<close>

lemma save_task_fields:
  "keyword_rows (save_task i t s) = keyword_rows s"
  "project_row (save_task i t s) = project_row s"
  "project_saves (save_task i t s) = project_saves s"
  "invoked (save_task i t s) = invoked s"
  "task_rows (save_task i t s) = (task_rows s)[i := t]"
  by (simp_all add: save_task_def)

lemma save_project_fields:
  "keyword_rows (save_project p s) = keyword_rows s"
  "project_row (save_project p s) = p"
  "project_saves (save_project p s) = project_saves s @ [p]"
  "invoked (save_project p s) = invoked s"
  "task_rows (save_project p s) = task_rows s"
  by (simp_all add: save_project_def)

lemma stage_failed_fields:
  "keyword_rows (stage_failed i e s) = keyword_rows s"
  "project_row (stage_failed i e s) = project_row s"
  "project_saves (stage_failed i e s) = project_saves s"
  "invoked (stage_failed i e s) = invoked s"
  by (simp_all add: stage_failed_def save_task_fields)

lemma stage_empty_fields:
  "keyword_rows (stage_empty i s) = keyword_rows s"
  "project_row (stage_empty i s) = project_row s"
  "project_saves (stage_empty i s) = project_saves s"
  "invoked (stage_empty i s) = invoked s"
  by (simp_all add: stage_empty_def save_task_fields)

lemma stage_completed_fields:
  "keyword_rows (stage_completed i r n s) = keyword_rows s"
  "project_row (stage_completed i r n s) = project_row s"
  "project_saves (stage_completed i r n s) = project_saves s"
  "invoked (stage_completed i r n s) = invoked s"
  by (simp_all add: stage_completed_def save_task_fields)

lemma set_progress_fields:
  "keyword_rows (set_progress i x s) = keyword_rows s"
  "project_row (set_progress i x s) = project_row s"
  "project_saves (set_progress i x s) = project_saves s"
  "invoked (set_progress i x s) = invoked s"
  by (simp_all add: set_progress_def save_task_fields)

lemma begin_stage_fields:
  "keyword_rows (begin_stage ty i s) = keyword_rows s"
  "project_row (begin_stage ty i s) = (project_row s)\<lparr>current_step := Some ty\<rparr>"
  "project_saves (begin_stage ty i s) = project_saves s @ [(project_row s)\<lparr>current_step := Some ty\<rparr>]"
  "invoked (begin_stage ty i s) = invoked s @ [ty]"
  by (simp_all add: begin_stage_def Let_def save_task_fields save_project_fields)

lemmas stage_fields = save_task_fields save_project_fields stage_failed_fields stage_empty_fields
  stage_completed_fields set_progress_fields begin_stage_fields

lemma extract_kept:
  "outcomes_kept (keyword_rows s) (keyword_rows (snd (extract_gsc_data env t r s)))"
proof -
  have "outcomes_kept (keyword_rows s) (fst (store_gsc_rows (keyword_rows s) 0 rows))" for rows
    by (intro prefix_outcomes_kept store_gsc_rows_prefix)
  then show ?thesis
    by (auto simp: extract_gsc_data_def Let_def stage_fields outcomes_kept_refl
             split: gsc_outcome.splits prod.splits) (metis fst_conv)
qed

lemma expand_kept:
  "outcomes_kept (keyword_rows s) (keyword_rows (snd (expand_keywords env t r s)))"
proof -
  have "outcomes_kept (keyword_rows s) (fst (store_ads_rows (keyword_rows s) 0 rows))" for rows
    by (rule store_ads_rows_kept)
  then show ?thesis
    by (auto simp: expand_keywords_def Let_def stage_fields outcomes_kept_refl
             split: ads_outcome.splits prod.splits) (metis fst_conv)
qed

lemma validate_kept:
  "outcomes_kept (keyword_rows s) (keyword_rows (snd (validate_aio_triggers env t r s)))"
proof -
  have "outcomes_kept (keyword_rows s) (fst (store_validation res (keyword_rows s)))" for res
    by (rule store_validation_kept)
  then show ?thesis
    by (auto simp: validate_aio_triggers_def Let_def stage_fields outcomes_kept_refl
             split: prod.splits sum.splits) (metis fst_conv)+
qed

lemma run_task_preserves:
  assumes "\<And>r s. P s \<Longrightarrow> P (snd (body r s))"
  shows "P s \<Longrightarrow> P (snd (run_task body r left s))"
proof (induction left arbitrary: r s)
  case 0
  then show ?case using assms by simp
next
  case (Suc left)
  show ?case
  proof (cases "body r s")
    case (Pair res s')
    have "P s'" using assms [OF Suc.prems, of r] Pair by simp
    then show ?thesis using Pair Suc.IH [of s' "Suc r"] by (cases res) simp_all
  qed
qed

lemma run_task_kept:
  assumes "\<And>r s. outcomes_kept (keyword_rows s) (keyword_rows (snd (body r s)))"
  shows "outcomes_kept (keyword_rows s) (keyword_rows (snd (run_task body r left s)))"
  using run_task_preserves [where P = "\<lambda>s'. outcomes_kept (keyword_rows s) (keyword_rows s')" and body = body]
    assms outcomes_kept_refl outcomes_kept_trans by blast

lemma report_kept:
  "keyword_rows (snd (generate_comprehensive_report env t s)) = keyword_rows s"
  by (simp add: generate_comprehensive_report_def Let_def stage_fields split: report_outcome.splits)

lemma then_stage_preserves:
  "P (snd x) \<Longrightarrow> (\<And>s. P s \<Longrightarrow> Q (snd (stage s))) \<Longrightarrow> (\<And>s. P s \<Longrightarrow> Q s)
   \<Longrightarrow> Q (snd (then_stage x stage))"
  by (cases x) (auto simp: then_stage_def split: sum.splits)

lemma run_complete_analysis_unfold:
  fixes env s
  defines "p \<equiv> (project_row s)\<lparr>status := Running\<rparr>"
  defines "n \<equiv> length (task_rows s)"
  defines "s1 \<equiv> (save_project p s)\<lparr>task_rows := task_rows s @
     [new_task Gsc_extraction, new_task Keyword_expansion, new_task Aio_validation,
      new_task Report_generation]\<rparr>"
  shows "run_complete_analysis env s =
     (case get_in_task env of
        Get_raises \<Rightarrow>
          snd (run_task (extract_gsc_data env n) 0 3
                 (project_failed p ''Never call result.get() within a task!'' s1))
      | Get_waits \<Rightarrow>
          (case then_stage
                  (then_stage
                     (then_stage (run_task (extract_gsc_data env n) 0 3 s1)
                        (run_task (expand_keywords env (n + 1)) 0 3))
                     (run_task (validate_aio_triggers env (n + 2)) 0 2))
                  (generate_comprehensive_report env (n + 3)) of
             (Inl exc, s') \<Rightarrow> project_failed p exc s'
           | (Inr r, s') \<Rightarrow>
               save_project (p\<lparr>status := Completed, completion_percentage := 100\<rparr>) s'))"
  unfolding run_complete_analysis_def Let_def p_def n_def s1_def save_project_fields
  by (rule refl)

lemma run_kept: "outcomes_kept (keyword_rows s) (keyword_rows (run_complete_analysis env s))"
proof -
  let ?P = "\<lambda>s'. outcomes_kept (keyword_rows s) (keyword_rows s')"
  define p where "p = (project_row s)\<lparr>status := Running\<rparr>"
  define n where "n = length (task_rows s)"
  define s1 where "s1 = (save_project p s)\<lparr>task_rows := task_rows s @
     [new_task Gsc_extraction, new_task Keyword_expansion, new_task Aio_validation, new_task Report_generation]\<rparr>"
  define x2 where "x2 = run_task (extract_gsc_data env n) 0 3 s1"
  define x3 where "x3 = then_stage x2 (run_task (expand_keywords env (n + 1)) 0 3)"
  define x4 where "x4 = then_stage x3 (run_task (validate_aio_triggers env (n + 2)) 0 2)"
  define x5 where "x5 = then_stage x4 (generate_comprehensive_report env (n + 3))"
  have k1: "?P s1" by (simp add: s1_def stage_fields outcomes_kept_refl)
  have rt: "(\<And>r s'. outcomes_kept (keyword_rows s') (keyword_rows (snd (body r s'))))
      \<Longrightarrow> ?P s' \<Longrightarrow> ?P (snd (run_task body 0 m s'))" for body m s'
    using run_task_kept [of body s' 0 m] outcomes_kept_trans by blast
  have k2: "?P (snd x2)" unfolding x2_def
    by (rule rt [OF extract_kept k1])
  have st: "?P (snd x) \<Longrightarrow> (\<And>s'. ?P s' \<Longrightarrow> ?P (snd (stage s'))) \<Longrightarrow> ?P (snd (then_stage x stage))"
    for x stage
    using then_stage_preserves [where P = ?P and Q = ?P and x = x and stage = stage] by blast
  have k3: "?P (snd x3)" unfolding x3_def
    by (rule st [OF k2]) (rule rt [OF expand_kept])
  have k4: "?P (snd x4)" unfolding x4_def
    by (rule st [OF k3]) (rule rt [OF validate_kept])
  have k5: "?P (snd x5)" unfolding x5_def
    by (rule st [OF k4]) (simp add: report_kept)
  have w: "?P (snd (run_task (extract_gsc_data env n) 0 3 (project_failed p exc s1)))" for exc
    by (rule rt [OF extract_kept]) (simp add: project_failed_def s1_def stage_fields outcomes_kept_refl)
  have e: "run_complete_analysis env s =
     (case get_in_task env of
        Get_raises \<Rightarrow>
          snd (run_task (extract_gsc_data env n) 0 3
                 (project_failed p ''Never call result.get() within a task!'' s1))
      | Get_waits \<Rightarrow>
          (case x5 of (Inl exc, s') \<Rightarrow> project_failed p exc s'
           | (Inr r, s') \<Rightarrow> save_project (p\<lparr>status := Completed, completion_percentage := 100\<rparr>) s'))"
    unfolding x5_def x4_def x3_def x2_def s1_def n_def p_def
    by (rule run_complete_analysis_unfold)
  show ?thesis
  proof (cases "get_in_task env")
    case Get_raises
    then show ?thesis using e w by simp
  next
    case Get_waits
    then show ?thesis using e k5
      by (cases x5) (auto simp: project_failed_def stage_fields split: sum.splits)
  qed
qed

lemma validate_rows:
  "keyword_rows (snd (validate_aio_triggers env t r s)) = keyword_rows s
   \<or> (\<exists>res. keyword_rows (snd (validate_aio_triggers env t r s)) = fst (store_validation res (keyword_rows s)))"
  by (auto simp: validate_aio_triggers_def Let_def stage_fields split: prod.splits sum.splits)
     (metis fst_conv)+

lemma extract_rows:
  "gsc_api env r = Gsc_data rows \<Longrightarrow>
   keyword_rows (snd (extract_gsc_data env t r s)) = fst (store_gsc_rows (keyword_rows s) 0 rows)"
  by (auto simp: extract_gsc_data_def Let_def stage_fields split: prod.splits)

lemma extract_result:
  "gsc_api env r = Gsc_data rows \<Longrightarrow>
   fst (extract_gsc_data env t r s) = Inr (snd (store_gsc_rows (keyword_rows s) 0 rows))"
  by (auto simp: extract_gsc_data_def Let_def stage_fields split: prod.splits)


text \<open>
  C7. A run of the whole pipeline keeps every keyword row and, for a row whose validation
  outcome is set, the outcome (\<open>aio_verified\<close> and \<open>aio_triggers\<close>). The validation stage
  works on the rows whose \<open>aio_verified\<close> is null only: it keeps the number of rows and
  leaves every row with a set outcome as it is. After an extraction every fetched query
  has a row; and an extraction whose fetched queries all have a row already (so a second
  extraction with the same input) creates no row, returns the count 0 and leaves the table
  as it is.
\<close>

theorem validation_outcome_write_once:
  "outcomes_kept (keyword_rows s) (keyword_rows (run_complete_analysis env s))
   \<and> length (keyword_rows (snd (validate_aio_triggers env t r s))) = length (keyword_rows s)
   \<and> (\<forall>i < length (keyword_rows s). aio_verified (keyword_rows s ! i) \<noteq> None \<longrightarrow>
         keyword_rows (snd (validate_aio_triggers env t r s)) ! i = keyword_rows s ! i)
   \<and> (gsc_api env r = Gsc_data rows \<longrightarrow>
         query ` set rows \<subseteq> kd_keyword ` set (keyword_rows (snd (extract_gsc_data env t r s))))
   \<and> (gsc_api env r = Gsc_data rows \<and> query ` set rows \<subseteq> kd_keyword ` set (keyword_rows s) \<longrightarrow>
         fst (extract_gsc_data env t r s) = Inr 0
         \<and> keyword_rows (snd (extract_gsc_data env t r s)) = keyword_rows s)"
proof -
  have a: "outcomes_kept (keyword_rows s) (keyword_rows (run_complete_analysis env s))"
    by (rule run_kept)
  have b: "length (keyword_rows (snd (validate_aio_triggers env t r s))) = length (keyword_rows s)"
    using validate_rows [of env t r s] by (auto simp: store_validation_length)
  have c: "keyword_rows (snd (validate_aio_triggers env t r s)) ! i = keyword_rows s ! i"
    if "i < length (keyword_rows s)" "aio_verified (keyword_rows s ! i) \<noteq> None" for i
    using validate_rows [of env t r s] that by (auto simp: store_validation_nth)
  have d: "query ` set rows \<subseteq> kd_keyword ` set (keyword_rows (snd (extract_gsc_data env t r s)))"
    if "gsc_api env r = Gsc_data rows"
    by (simp add: extract_rows [OF that] store_gsc_rows_keys)
  have e: "fst (extract_gsc_data env t r s) = Inr 0
           \<and> keyword_rows (snd (extract_gsc_data env t r s)) = keyword_rows s"
    if "gsc_api env r = Gsc_data rows" "query ` set rows \<subseteq> kd_keyword ` set (keyword_rows s)"
  proof -
    have "store_gsc_rows (keyword_rows s) 0 rows = (keyword_rows s, 0)"
      using that(2) by (intro store_gsc_rows_present) auto
    then show ?thesis by (simp add: extract_rows [OF that(1)] extract_result [OF that(1)])
  qed
  show ?thesis using a b c d e by blast
qed

theorem validation_outcome_write_once_witness:
  "aio_verified (keyword_rows db_demo ! 0) = Some True
   \<and> gsc_api env_demo 0 = Gsc_data demo_rows
   \<and> keyword_rows (snd (validate_aio_triggers env_demo 1 0 db_demo)) ! 0 = kw_seen
   \<and> aio_triggers (keyword_rows (run_complete_analysis env_demo db_demo) ! 0) = Some True
   \<and> fst (extract_gsc_data env_demo 0 1 (snd (extract_gsc_data env_demo 0 0 db_demo))) = Inr 0
   \<and> keyword_rows (snd (extract_gsc_data env_demo 0 1 (snd (extract_gsc_data env_demo 0 0 db_demo))))
       = keyword_rows (snd (extract_gsc_data env_demo 0 0 db_demo))"
proof -
  let ?s1 = "snd (extract_gsc_data env_demo 0 0 db_demo)"
  have g: "gsc_api env_demo 0 = Gsc_data demo_rows" "gsc_api env_demo 1 = Gsc_data demo_rows"
    by (simp_all add: env_demo_def)
  have v: "aio_verified (keyword_rows db_demo ! 0) = Some True" "keyword_rows db_demo ! 0 = kw_seen"
    "0 < length (keyword_rows db_demo)" "aio_triggers (keyword_rows db_demo ! 0) = Some True"
    by (simp_all add: db_demo_def new_db_def kw_seen_def)
  note t0 = validation_outcome_write_once [of db_demo env_demo 0 0 demo_rows]
  note t1 = validation_outcome_write_once [of db_demo env_demo 1 0 demo_rows]
  have "\<forall>i < length (keyword_rows db_demo). aio_verified (keyword_rows db_demo ! i) \<noteq> None \<longrightarrow>
         keyword_rows (snd (validate_aio_triggers env_demo 1 0 db_demo)) ! i = keyword_rows db_demo ! i"
    using t1 by blast
  then have 1: "keyword_rows (snd (validate_aio_triggers env_demo 1 0 db_demo)) ! 0 = kw_seen"
    using v(1,2,3) by (metis option.distinct(1))
  have "outcomes_kept (keyword_rows db_demo) (keyword_rows (run_complete_analysis env_demo db_demo))"
    using t0 by blast
  then have 2: "aio_triggers (keyword_rows (run_complete_analysis env_demo db_demo) ! 0) = Some True"
    unfolding outcomes_kept_def using v(1,3,4) by (metis option.distinct(1))
  have 3: "query ` set demo_rows \<subseteq> kd_keyword ` set (keyword_rows ?s1)"
    using t0 g by blast
  have 4: "fst (extract_gsc_data env_demo 0 1 ?s1) = Inr 0
           \<and> keyword_rows (snd (extract_gsc_data env_demo 0 1 ?s1)) = keyword_rows ?s1"
    using validation_outcome_write_once [of ?s1 env_demo 0 1 demo_rows] g 3 by blast
  show ?thesis using g v 1 2 4 by simp
qed



section \<open>The percentage\<close>

subsection \<open>Evaluation and rounding\<close>



















subsection \<open>The summary of the validation stage\<close>










section \<open>The orchestrator\<close>

subsection \<open>The step counter\<close>

lemma run_task_Inr: "fst (body r s) = Inr v \<Longrightarrow> run_task body r left s = body r s"
  by (cases left; cases "body r s") auto

lemma extract_project_row:
  assumes "gsc_api env r = Gsc_data rows" and "rows \<noteq> []"
  shows "project_row (snd (extract_gsc_data env t r s)) =
           (project_row s)\<lparr>current_step := Some Gsc_extraction,
                           completed_steps := completed_steps (project_row s) + 1,
                           total_keywords :=
                             int (length (fst (store_gsc_rows (keyword_rows s) 0 rows)))\<rparr>"
    and "\<exists>n. fst (extract_gsc_data env t r s) = Inr n"
  using assms by (auto simp: extract_gsc_data_def Let_def stage_fields split: prod.splits)

lemma refused_run_project_row:
  assumes "get_in_task env = Get_raises" and "gsc_api env 0 = Gsc_data rows" and "rows \<noteq> []"
  shows "project_row (run_complete_analysis env s) =
           (project_row s)\<lparr>status := Failed,
                           error_message := ''Never call result.get() within a task!'',
                           current_step := Some Gsc_extraction,
                           completed_steps := completed_steps (project_row s) + 1,
                           total_keywords :=
                             int (length (fst (store_gsc_rows (keyword_rows s) 0 rows)))\<rparr>"
proof -
  define p where "p = (project_row s)\<lparr>status := Running\<rparr>"
  define s1 where "s1 = (save_project p s)\<lparr>task_rows := task_rows s @
     [new_task Gsc_extraction, new_task Keyword_expansion, new_task Aio_validation,
      new_task Report_generation]\<rparr>"
  define s2 where "s2 = project_failed p ''Never call result.get() within a task!'' s1"
  have e: "run_complete_analysis env s = snd (run_task (extract_gsc_data env (length (task_rows s))) 0 3 s2)"
    unfolding s2_def s1_def p_def using assms(1) by (simp add: run_complete_analysis_unfold)
  obtain n where "fst (extract_gsc_data env (length (task_rows s)) 0 s2) = Inr n"
    using extract_project_row(2) [OF assms(2,3)] by blast
  then have "run_task (extract_gsc_data env (length (task_rows s))) 0 3 s2
             = extract_gsc_data env (length (task_rows s)) 0 s2"
    by (rule run_task_Inr)
  then show ?thesis
    by (simp add: e extract_project_row(1) [OF assms(2,3)])
       (simp add: s2_def s1_def p_def project_failed_def save_project_fields)
qed

lemma refused_run_counter:
  assumes "get_in_task env = Get_raises" and "gsc_api env 0 = Gsc_data rows" and "rows \<noteq> []"
  shows "completed_steps (project_row (run_complete_analysis env s)) = completed_steps (project_row s) + 1"
    and "total_steps (project_row (run_complete_analysis env s)) = total_steps (project_row s)"
    and "status (project_row (run_complete_analysis env s)) = Failed"
  by (simp_all add: refused_run_project_row [OF assms])

text \<open>
  C8, as the code has it. Inside a worker every run of the orchestrator on a project for
  which the search console has rows ends with the project failed and with
  \<open>completed_steps\<close> one higher than before: the extraction that was queued adds one after
  the orchestrator has saved its copy, nothing compares the counter with \<open>total_steps\<close>, and
  nothing resets it for the next run. After the fifth run of a project created with the
  defaults \<open>completed_steps\<close> is 5 and \<open>total_steps\<close> is 4.
\<close>

theorem completed_steps_exceeds_total:
  "status (project_row (run_all [env_worker, env_worker, env_worker, env_worker] new_db)) = Failed
   \<and> completed_steps (project_row (run_all [env_worker, env_worker, env_worker, env_worker] new_db)) = 4
   \<and> completed_steps
        (project_row (run_all [env_worker, env_worker, env_worker, env_worker, env_worker] new_db)) = 5
   \<and> total_steps
        (project_row (run_all [env_worker, env_worker, env_worker, env_worker, env_worker] new_db)) = 4"
proof -
  have w: "get_in_task env_worker = Get_raises" "gsc_api env_worker 0 = Gsc_data demo_rows"
    "demo_rows \<noteq> []"
    by (simp_all add: env_worker_def env_demo_def demo_rows_def)
  note c = refused_run_counter [OF w]
  show ?thesis by (simp add: c new_db_def new_project_def)
qed


subsection \<open>An extraction without rows\<close>




lemma invoked_extract: "invoked (snd (extract_gsc_data env t r s)) = invoked s @ [Gsc_extraction]"
  by (auto simp: extract_gsc_data_def Let_def stage_fields split: gsc_outcome.splits prod.splits)










end
